theory Spec2Isabelle
  imports Complex_Main "HOL-Library.Multiset" "HOL-Library.Word"
begin

section \<open>Errors and the retry policy (core/ErrorHandler.js)\<close>

text \<open>
  A thrown JavaScript value. \<open>err_code\<close> is the \<open>code\<close> property: the string a
  \<open>KompreserError\<close> subclass passes to its super constructor, and \<open>None\<close> (undefined) for a
  plain \<open>Error\<close>, \<open>TypeError\<close> or \<open>ReferenceError\<close>. \<open>err_algorithm\<close> is the \<open>algorithm\<close>
  property, which only \<open>CompressionError\<close> sets.
\<close>

record js_error =
  err_name :: string
  err_message :: string
  err_code :: "string option"
  err_algorithm :: "string option"

definition PlainError :: "string \<Rightarrow> js_error" where
  "PlainError msg =
     \<lparr>err_name = ''Error'', err_message = msg, err_code = None, err_algorithm = None\<rparr>"

definition ReferenceError :: "string \<Rightarrow> js_error" where
  "ReferenceError msg =
     \<lparr>err_name = ''ReferenceError'', err_message = msg, err_code = None, err_algorithm = None\<rparr>"


definition ValidationError :: "string \<Rightarrow> js_error" where
  "ValidationError msg =
     \<lparr>err_name = ''ValidationError'', err_message = msg,
      err_code = Some ''VALIDATION_ERROR'', err_algorithm = None\<rparr>"

definition CompressionError :: "string \<Rightarrow> string \<Rightarrow> js_error" where
  "CompressionError msg alg =
     \<lparr>err_name = ''CompressionError'', err_message = ''Compression failed: '' @ msg,
      err_code = Some ''COMPRESSION_ERROR'', err_algorithm = Some alg\<rparr>"

definition MemoryError :: "string \<Rightarrow> js_error" where
  "MemoryError msg =
     \<lparr>err_name = ''MemoryError'', err_message = ''Memory error: '' @ msg,
      err_code = Some ''MEMORY_ERROR'', err_algorithm = None\<rparr>"

definition WorkerError :: "string \<Rightarrow> js_error" where
  "WorkerError msg =
     \<lparr>err_name = ''WorkerError'', err_message = ''Worker error: '' @ msg,
      err_code = Some ''WORKER_ERROR'', err_algorithm = None\<rparr>"

text \<open>
  The state of an \<open>ErrorHandler\<close> that the retry decision reads: the \<open>maxRetries\<close> option
  and the \<open>errorCounts\<close> map from error codes to occurrence counts.
\<close>

record error_handler =
  maxRetries :: int
  errorCounts :: "string option \<rightharpoonup> int"

text \<open>\<open>this.errorCounts.get(error.code) || 0\<close>\<close>

definition errorCount :: "error_handler \<Rightarrow> js_error \<Rightarrow> int" where
  "errorCount h e = (case errorCounts h (err_code e) of None \<Rightarrow> 0 | Some c \<Rightarrow> c)"

definition trackError :: "error_handler \<Rightarrow> js_error \<Rightarrow> error_handler" where
  "trackError h e = h\<lparr>errorCounts := (errorCounts h)(err_code e \<mapsto> errorCount h e + 1)\<rparr>"

definition retryableErrors :: "string list" where
  "retryableErrors = [''WORKER_ERROR'', ''TIMEOUT_ERROR'', ''COMPRESSION_ERROR'']"

definition isRetryableError :: "js_error \<Rightarrow> bool" where
  "isRetryableError e = (case err_code e of None \<Rightarrow> False | Some c \<Rightarrow> c \<in> set retryableErrors)"

text \<open>
  The result object of \<open>shouldRetry\<close>: the flag, and the attempt number when the flag is
  set. The back-off sleep between the decision and the return only delays the result.
\<close>

record retry_decision =
  shouldRetry_flag :: bool
  attempt :: "int option"

definition shouldRetry :: "error_handler \<Rightarrow> js_error \<Rightarrow> retry_decision" where
  "shouldRetry h e =
     (if errorCount h e \<le> maxRetries h \<and> isRetryableError e
      then \<lparr>shouldRetry_flag = True, attempt = Some (errorCount h e)\<rparr>
      else \<lparr>shouldRetry_flag = False, attempt = None\<rparr>)"

text \<open>The handler that \<open>new ErrorHandler()\<close> builds with the default options.\<close>

definition defaultErrorHandler :: error_handler where
  "defaultErrorHandler = \<lparr>maxRetries = 3, errorCounts = Map.empty\<rparr>"

section \<open>The retry policy: theorems\<close>

text \<open>
  C6, as stated, is false: a compression error is in the list of retryable codes, and the
  first compression error a fresh handler tracks is answered with a retry.
\<close>

theorem C6_compression_error_retried:
  "isRetryableError (CompressionError ''JPEG compression failed: x'' ''jpeg'')
   \<and> shouldRetry_flag
        (shouldRetry
          (trackError defaultErrorHandler (CompressionError ''JPEG compression failed: x'' ''jpeg''))
          (CompressionError ''JPEG compression failed: x'' ''jpeg''))"
  by (simp add: isRetryableError_def shouldRetry_def trackError_def errorCount_def
      defaultErrorHandler_def CompressionError_def retryableErrors_def)

text \<open>
  C6, amended: the retry decision answers with a retry exactly when the error's code is one
  of WORKER_ERROR, TIMEOUT_ERROR and COMPRESSION_ERROR and the count recorded for that code
  is at most \<open>maxRetries\<close>; every compression error is retryable, an error of any other
  code (a validation or memory error, a plain Error) never is.
\<close>

theorem C6_retry_policy:
  "shouldRetry_flag (shouldRetry h e) =
     (errorCount h e \<le> maxRetries h \<and>
      (err_code e = Some ''WORKER_ERROR'' \<or> err_code e = Some ''TIMEOUT_ERROR''
       \<or> err_code e = Some ''COMPRESSION_ERROR''))
   \<and> isRetryableError (CompressionError msg alg)
   \<and> shouldRetry_flag (shouldRetry h (CompressionError msg alg)) =
       (errorCount h (CompressionError msg alg) \<le> maxRetries h)
   \<and> \<not> isRetryableError (ValidationError msg)
   \<and> \<not> isRetryableError (MemoryError msg)
   \<and> \<not> isRetryableError (PlainError msg)"
  by (auto simp add: isRetryableError_def shouldRetry_def CompressionError_def
      ValidationError_def MemoryError_def PlainError_def retryableErrors_def
      split: option.splits)

section \<open>Typed arrays, numbers and pixel buffers\<close>

text \<open>
  A \<open>Uint8Array\<close> (and the \<open>Uint8ClampedArray\<close> of an \<open>ImageData\<close>) is a list of
  8-bit words. Reading an index outside the array gives \<open>undefined\<close> (\<open>None\<close>); writing
  outside it does nothing; a number written into a \<open>Uint8Array\<close> is taken modulo 256, and
  \<open>undefined\<close> or \<open>NaN\<close> is written as 0.
\<close>

type_synonym byte = "8 word"

definition load :: "'a list \<Rightarrow> int \<Rightarrow> 'a option" where
  "load a i = (if 0 \<le> i \<and> i < int (length a) then Some (a ! nat i) else None)"

definition store :: "'a list \<Rightarrow> int \<Rightarrow> 'a \<Rightarrow> 'a list" where
  "store a i v = (if 0 \<le> i \<and> i < int (length a) then a[nat i := v] else a)"

definition toUint8 :: "int option \<Rightarrow> byte" where
  "toUint8 v = (case v of None \<Rightarrow> 0 | Some n \<Rightarrow> word_of_int n)"

definition byteValue :: "byte option \<Rightarrow> int option" where
  "byteValue b = map_option uint b"

text \<open>
  The arithmetic of the codec runs on IEEE doubles and stores blocks in a
  \<open>Float32Array\<close>. The model computes with exact reals instead, and \<open>None\<close> stands for
  \<open>NaN\<close> (what arithmetic on \<open>undefined\<close> gives): rounding errors of the floating-point
  operations are not modelled, the control flow and every array length are. A division by
  zero gives an infinity or \<open>NaN\<close>; both become 0 when stored into an integer array, and
  both are \<open>None\<close> here. \<open>Math.round\<close> rounds half up; an \<open>Int16Array\<close> wraps modulo
  \<open>2 ^ 16\<close>.
\<close>

type_synonym jsnum = "real option"

definition num :: "byte option \<Rightarrow> jsnum" where
  "num b = map_option (\<lambda>v. real_of_int (uint v)) b"

definition fadd :: "jsnum \<Rightarrow> jsnum \<Rightarrow> jsnum" where
  "fadd a b = (case a of None \<Rightarrow> None | Some x \<Rightarrow> (case b of None \<Rightarrow> None | Some y \<Rightarrow> Some (x + y)))"

definition fsub :: "jsnum \<Rightarrow> jsnum \<Rightarrow> jsnum" where
  "fsub a b = (case a of None \<Rightarrow> None | Some x \<Rightarrow> (case b of None \<Rightarrow> None | Some y \<Rightarrow> Some (x - y)))"

definition fmul :: "jsnum \<Rightarrow> jsnum \<Rightarrow> jsnum" where
  "fmul a b = (case a of None \<Rightarrow> None | Some x \<Rightarrow> (case b of None \<Rightarrow> None | Some y \<Rightarrow> Some (x * y)))"

definition fdiv :: "jsnum \<Rightarrow> jsnum \<Rightarrow> jsnum" where
  "fdiv a b = (case a of None \<Rightarrow> None | Some x \<Rightarrow>
                (case b of None \<Rightarrow> None | Some y \<Rightarrow> if y = 0 then None else Some (x / y)))"

definition mathRound :: "jsnum \<Rightarrow> int option" where
  "mathRound a = map_option (\<lambda>x. \<lfloor>x + 1 / 2\<rfloor>) a"

definition clamp255 :: "int option \<Rightarrow> int option" where
  "clamp255 v = map_option (\<lambda>n. max 0 (min 255 n)) v"

definition toInt16 :: "int option \<Rightarrow> int" where
  "toInt16 v = (case v of None \<Rightarrow> 0 | Some n \<Rightarrow> sint (word_of_int n :: 16 word))"

text \<open>
  The pixel buffer every component receives: the RGBA bytes and the two dimensions.
  Nothing ties the length of \<open>img_data\<close> to the dimensions.
\<close>

record imageData =
  img_data :: "byte list"
  img_width :: int
  img_height :: int

section \<open>The content analyzer (utils/ImageAnalyzer.js)\<close>

text \<open>
  \<open>analyzePixels\<close> walks the data four bytes at a time. A sample beyond the end of the
  data is \<open>undefined\<close>: it is not less than 255, it differs from every number, and its
  part of the colour key is \<open>NaN\<close>. \<open>Math.round(r / 8)\<close> of a byte is
  \<open>(r + 4) div 8\<close>. The set of colour keys is a list without repetitions.
\<close>

type_synonym colorKey = "int option \<times> int option \<times> int option"

record pixel_stats =
  ps_hasAlpha :: bool
  ps_isGrayscale :: bool
  ps_hasColor :: bool
  ps_uniqueColors :: "colorKey list"
  ps_alphaPixels :: nat

definition roundEighth :: "int option \<Rightarrow> int option" where
  "roundEighth v = map_option (\<lambda>n. (n + 4) div 8) v"

definition lessThan255 :: "int option \<Rightarrow> bool" where
  "lessThan255 a = (case a of None \<Rightarrow> False | Some v \<Rightarrow> v < 255)"

definition analyzePixel :: "byte list \<Rightarrow> int \<Rightarrow> pixel_stats \<Rightarrow> pixel_stats" where
  "analyzePixel data i analysis =
     (let r = byteValue (load data i);
          g = byteValue (load data (i + 1));
          b = byteValue (load data (i + 2));
          a = byteValue (load data (i + 3));
          analysis1 =
            (if lessThan255 a
             then analysis\<lparr>ps_hasAlpha := True, ps_alphaPixels := ps_alphaPixels analysis + 1\<rparr>
             else analysis);
          analysis2 =
            (if r \<noteq> g \<or> g \<noteq> b
             then analysis1\<lparr>ps_isGrayscale := False, ps_hasColor := True\<rparr>
             else analysis1);
          colorKey = (roundEighth r, roundEighth g, roundEighth b)
      in analysis2\<lparr>ps_uniqueColors := List.insert colorKey (ps_uniqueColors analysis2)\<rparr>)"

function analyzePixelsLoop :: "byte list \<Rightarrow> int \<Rightarrow> pixel_stats \<Rightarrow> pixel_stats" where
  "analyzePixelsLoop data i analysis =
     (if i < int (length data)
      then analyzePixelsLoop data (i + 4) (analyzePixel data i analysis)
      else analysis)"
  by pat_completeness auto
termination
  by (relation "measure (\<lambda>(d, i, s). nat (int (length d) - i))") auto

declare analyzePixelsLoop.simps [simp del]

definition analyzePixels :: "imageData \<Rightarrow> pixel_stats" where
  "analyzePixels imageData =
     analyzePixelsLoop (img_data imageData) 0
       \<lparr>ps_hasAlpha = False, ps_isGrayscale = True, ps_hasColor = False,
        ps_uniqueColors = [], ps_alphaPixels = 0\<rparr>"

text \<open>
  The result of \<open>analyze\<close>, restricted to the fields that are computed without
  floating-point arithmetic. \<open>analyzeContent\<close> adds \<open>blockAnalysis.variance\<close>, a
  property \<open>analyzeBlock\<close> never sets, so its complexity is 0 or \<open>NaN\<close> and never
  exceeds 1000: every image is classified as a graphic, and the recommended format is
  \<open>webp\<close> with alpha and \<open>png\<close> without. The entropy, variance, edge, blur and
  noise statistics are arithmetic on numbers and \<open>undefined\<close>, which cannot raise;
  they are not part of this record. No statement of the \<open>try\<close> block of
  \<open>analyze\<close> compares the data length with the dimensions or throws.
\<close>

record analysis =
  an_width :: int
  an_height :: int
  an_pixelCount :: int
  an_hasAlpha :: bool
  an_isGrayscale :: bool
  an_hasColor :: bool
  an_uniqueColorCount :: nat
  an_isPhotograph :: bool
  an_isGraphic :: bool
  an_recommendedFormat :: string

definition analyze :: "imageData \<Rightarrow> js_error + analysis" where
  "analyze imageData =
     (let pixelAnalysis = analyzePixels imageData;
          isPhotograph = False;
          isGraphic = True
      in Inr \<lparr>an_width = img_width imageData,
              an_height = img_height imageData,
              an_pixelCount = img_width imageData * img_height imageData,
              an_hasAlpha = ps_hasAlpha pixelAnalysis,
              an_isGrayscale = ps_isGrayscale pixelAnalysis,
              an_hasColor = ps_hasColor pixelAnalysis,
              an_uniqueColorCount = length (ps_uniqueColors pixelAnalysis),
              an_isPhotograph = isPhotograph,
              an_isGraphic = isGraphic,
              an_recommendedFormat =
                (if ps_hasAlpha pixelAnalysis then ''webp''
                 else if isGraphic then ''png'' else ''jpeg'')\<rparr>)"

text \<open>The invariant of a pixel buffer, which \<open>analyze\<close> never checks, and a
  buffer that breaks it: three bytes for one pixel.\<close>

definition validBuffer :: "imageData \<Rightarrow> bool" where
  "validBuffer imageData =
     (int (length (img_data imageData)) = img_width imageData * img_height imageData * 4)"

definition threeBytes :: imageData where
  "threeBytes = \<lparr>img_data = [255, 0, 0], img_width = 1, img_height = 1\<rparr>"

subsection \<open>Alpha presence\<close>

lemma analyzePixel_hasAlpha:
  "ps_hasAlpha (analyzePixel data (4 * int k) s) =
     (ps_hasAlpha s \<or> (4 * k + 3 < length data \<and> uint (data ! (4 * k + 3)) < 255))"
proof -
  have n: "nat (4 * int k + 3) = 4 * k + 3" by simp
  have r: "(4 * int k + 3 < int (length data)) = (4 * k + 3 < length data)" by linarith
  have "lessThan255 (byteValue (load data (4 * int k + 3))) =
     (4 * k + 3 < length data \<and> uint (data ! (4 * k + 3)) < 255)"
    by (simp add: lessThan255_def byteValue_def load_def n r)
  then show ?thesis by (auto simp add: analyzePixel_def Let_def)
qed

lemma ex_from_split: "(\<exists>p\<ge>k. P p) = (P (k::nat) \<or> (\<exists>p\<ge>Suc k. P p))"
proof
  assume "\<exists>p\<ge>k. P p"
  then obtain p where p: "k \<le> p" "P p" by blast
  show "P k \<or> (\<exists>p\<ge>Suc k. P p)"
  proof (cases "p = k")
    case True
    with p show ?thesis by simp
  next
    case False
    with p have "Suc k \<le> p" by simp
    with p show ?thesis by blast
  qed
next
  assume "P k \<or> (\<exists>p\<ge>Suc k. P p)"
  then show "\<exists>p\<ge>k. P p"
  proof
    assume "P k" then show ?thesis by blast
  next
    assume "\<exists>p\<ge>Suc k. P p"
    then obtain p where "Suc k \<le> p" "P p" by blast
    then have "k \<le> p" "P p" by simp_all
    then show ?thesis by blast
  qed
qed

lemma analyzePixelsLoop_stop:
  "\<not> i < int (length data) \<Longrightarrow> analyzePixelsLoop data i s = s"
  by (subst analyzePixelsLoop.simps) simp

lemma analyzePixelsLoop_step:
  "i < int (length data) \<Longrightarrow>
   analyzePixelsLoop data i s = analyzePixelsLoop data (i + 4) (analyzePixel data i s)"
  by (subst analyzePixelsLoop.simps) simp

lemma analyzePixelsLoop_hasAlpha:
  "i = 4 * int k \<Longrightarrow>
   ps_hasAlpha (analyzePixelsLoop data i s) =
     (ps_hasAlpha s \<or> (\<exists>p\<ge>k. 4 * p + 3 < length data \<and> uint (data ! (4 * p + 3)) < 255))"
proof (induction data i s arbitrary: k rule: analyzePixelsLoop.induct)
  case (1 data i s)
  let ?P = "\<lambda>p. 4 * p + 3 < length data \<and> uint (data ! (4 * p + 3)) < 255"
  show ?case
  proof (cases "i < int (length data)")
    case False
    have "\<not> ?P p" if "k \<le> p" for p
    proof -
      from that "1.prems" have "i \<le> 4 * int p" by simp
      with False show ?thesis by linarith
    qed
    then have n: "(\<exists>p\<ge>k. ?P p) = False" by blast
    show ?thesis by (simp only: analyzePixelsLoop_stop[OF False] n simp_thms)
  next
    case True
    have i4: "i + 4 = 4 * int (Suc k)" using "1.prems" by simp
    have IH: "ps_hasAlpha (analyzePixelsLoop data (i + 4) (analyzePixel data i s)) =
       (ps_hasAlpha (analyzePixel data i s) \<or> (\<exists>p\<ge>Suc k. ?P p))"
      by (rule "1.IH"[OF True i4])
    have px: "ps_hasAlpha (analyzePixel data i s) = (ps_hasAlpha s \<or> ?P k)"
      unfolding "1.prems" by (rule analyzePixel_hasAlpha)
    have sp: "(\<exists>p\<ge>k. ?P p) = (?P k \<or> (\<exists>p\<ge>Suc k. ?P p))"
      by (rule ex_from_split)
    show ?thesis
      by (simp only: analyzePixelsLoop_step[OF True] IH px sp disj_assoc)
  qed
qed

lemma analyze_hasAlpha:
  "ps_hasAlpha (analyzePixels imageData) =
     (\<exists>p. 4 * p + 3 < length (img_data imageData) \<and> uint (img_data imageData ! (4 * p + 3)) < 255)"
proof -
  have "(0::int) = 4 * int 0" by simp
  from analyzePixelsLoop_hasAlpha[OF this]
  show ?thesis unfolding analyzePixels_def by simp
qed

text \<open>
  C3, as stated, is false: a buffer of three bytes that claims to be 1x1 (its length is
  not \<open>1 * 1 * 4\<close>) is analyzed without an error.
\<close>

theorem C3_mismatched_buffer_accepted:
  "\<not> validBuffer threeBytes
   \<and> analyze threeBytes =
       Inr \<lparr>an_width = 1, an_height = 1, an_pixelCount = 1, an_hasAlpha = False,
            an_isGrayscale = False, an_hasColor = True, an_uniqueColorCount = 1,
            an_isPhotograph = False, an_isGraphic = True, an_recommendedFormat = ''png''\<rparr>"
proof -
  have "\<not> validBuffer threeBytes" by (simp add: validBuffer_def threeBytes_def)
  moreover have "analyze threeBytes =
       Inr \<lparr>an_width = 1, an_height = 1, an_pixelCount = 1, an_hasAlpha = False,
            an_isGrayscale = False, an_hasColor = True, an_uniqueColorCount = 1,
            an_isPhotograph = False, an_isGraphic = True, an_recommendedFormat = ''png''\<rparr>"
    by code_simp
  ultimately show ?thesis by simp
qed

text \<open>
  C3, amended: \<open>analyze\<close> is a function of the buffer and has no failure mode for a
  buffer of bytes: it never rejects, whether or not the data length equals
  \<open>width * height * 4\<close>. It reports the dimensions it was given, alpha presence
  exactly when some alpha sample inside the data is below 255, and always the
  classification graphic.
\<close>

theorem C3_analyze_total:
  "\<not> isl (analyze imageData)
   \<and> (\<exists>a. analyze imageData = Inr a
        \<and> an_width a = img_width imageData \<and> an_height a = img_height imageData
        \<and> an_pixelCount a = img_width imageData * img_height imageData
        \<and> an_hasAlpha a =
            (\<exists>p. 4 * p + 3 < length (img_data imageData)
                 \<and> uint (img_data imageData ! (4 * p + 3)) < 255)
        \<and> an_isGraphic a \<and> \<not> an_isPhotograph a
        \<and> an_recommendedFormat a = (if an_hasAlpha a then ''webp'' else ''png''))"
  by (simp add: analyze_def Let_def analyze_hasAlpha)

section \<open>Strategy selection (core/CompressionEngine.js, core/Kompreser.js)\<close>

subsection \<open>The engine's strategy table\<close>

text \<open>
  An options object is a map from property names to JavaScript values; a missing
  property reads as \<open>undefined\<close>, and the spread \<open>{...a, ...b}\<close> is the map
  \<open>a ++ b\<close>. \<open>this.strategies[level]\<close> finds the four own entries of the table
  and, for the names of \<open>Object.prototype\<close>, an inherited function or object, which is
  truthy and spreads to nothing. A level that is not a string is no key of the table.
\<close>

datatype jsval = Undefined | Null | Bool bool | Num real | NaN | Str string

type_synonym obj = "string \<rightharpoonup> jsval"

definition truthy :: "jsval \<Rightarrow> bool" where
  "truthy v =
     (case v of Undefined \<Rightarrow> False | Null \<Rightarrow> False | Bool b \<Rightarrow> b | Num x \<Rightarrow> x \<noteq> 0
      | NaN \<Rightarrow> False | Str s \<Rightarrow> s \<noteq> [])"

definition getProp :: "obj \<Rightarrow> string \<Rightarrow> jsval" where
  "getProp object key = (case object key of None \<Rightarrow> Undefined | Some v \<Rightarrow> v)"

record engine =
  this_options :: obj
  strategies_custom :: obj

definition objectPrototypeKeys :: "string list" where
  "objectPrototypeKeys =
     [''constructor'', ''__defineGetter__'', ''__defineSetter__'', ''hasOwnProperty'',
      ''__lookupGetter__'', ''__lookupSetter__'', ''isPrototypeOf'', ''propertyIsEnumerable'',
      ''toString'', ''valueOf'', ''__proto__'', ''toLocaleString'']"

definition strategies :: "engine \<Rightarrow> string \<Rightarrow> obj option" where
  "strategies eng level =
     (if level = ''fast''
      then Some [''quality'' \<mapsto> Num 0.7, ''effort'' \<mapsto> Num 1, ''progressive'' \<mapsto> Bool False]
      else if level = ''balanced''
      then Some [''quality'' \<mapsto> Num 0.8, ''effort'' \<mapsto> Num 4, ''progressive'' \<mapsto> Bool True]
      else if level = ''maximum''
      then Some [''quality'' \<mapsto> Num 0.9, ''effort'' \<mapsto> Num 9, ''progressive'' \<mapsto> Bool True]
      else if level = ''custom'' then Some (strategies_custom eng)
      else if level \<in> set objectPrototypeKeys then Some Map.empty
      else None)"

definition lookupStrategy :: "engine \<Rightarrow> jsval \<Rightarrow> obj option" where
  "lookupStrategy eng level = (case level of Str s \<Rightarrow> strategies eng s | _ \<Rightarrow> None)"

definition selectedLevel :: "engine \<Rightarrow> obj \<Rightarrow> jsval" where
  "selectedLevel eng options =
     (if truthy (getProp options ''compressionLevel'')
      then getProp options ''compressionLevel''
      else getProp (this_options eng) ''compressionLevel'')"

definition selectStrategy :: "engine \<Rightarrow> obj \<Rightarrow> obj" where
  "selectStrategy eng options =
     (let level = selectedLevel eng options
      in case lookupStrategy eng level of
           Some strategy \<Rightarrow> [''name'' \<mapsto> level] ++ strategy ++ options
         | None \<Rightarrow> [''name'' \<mapsto> Str ''custom''] ++ strategies_custom eng ++ options)"

subsection \<open>The strategy of the main class\<close>

text \<open>
  \<open>determineCompressionStrategy\<close> reads four flags of the analysis (by truthiness), the
  pixel count, and the merged options; \<open>isFormatSupported\<close> asks the host canvas.
  A quality that is \<open>undefined\<close> or \<open>NaN\<close> is \<open>None\<close>: arithmetic and
  \<open>Math.max\<close>/\<open>Math.min\<close> keep it \<open>NaN\<close>, a comparison with it is false.
\<close>

record content_flags =
  hasTransparency :: bool
  isPhotograph :: bool
  isGraphic :: bool
  hasSharpEdges :: bool

record preferences =
  pref_quality :: jsnum
  pref_progressive :: "bool option"
  pref_format :: "string option"
  pref_compressionLevel :: "string option"

record strategy =
  st_algorithm :: string
  st_quality :: jsnum
  st_progressive :: "bool option"
  st_format :: "string option"

definition greaterThan08 :: "jsnum \<Rightarrow> bool" where
  "greaterThan08 q = (case q of None \<Rightarrow> False | Some x \<Rightarrow> x > 0.8)"

definition selectOptimalFormat ::
  "(string \<Rightarrow> bool) \<Rightarrow> content_flags \<Rightarrow> preferences \<Rightarrow> string" where
  "selectOptimalFormat isFormatSupported analysis options =
     (if isFormatSupported ''webp'' \<and> hasTransparency analysis then ''webp''
      else if isFormatSupported ''avif'' \<and> greaterThan08 (pref_quality options) then ''avif''
      else if isPhotograph analysis \<and> \<not> hasTransparency analysis then ''jpeg''
      else if isGraphic analysis \<or> hasSharpEdges analysis then ''png''
      else ''jpeg'')"

definition mathMax :: "real \<Rightarrow> jsnum \<Rightarrow> jsnum" where
  "mathMax a b = map_option (max a) b"

definition mathMin :: "real \<Rightarrow> jsnum \<Rightarrow> jsnum" where
  "mathMin a b = map_option (min a) b"

definition determineCompressionStrategy ::
  "(string \<Rightarrow> bool) \<Rightarrow> imageData \<Rightarrow> content_flags \<Rightarrow> preferences \<Rightarrow> strategy" where
  "determineCompressionStrategy isFormatSupported imageData analysis options =
     (let strategy0 = \<lparr>st_algorithm = ''auto'', st_quality = pref_quality options,
                       st_progressive = pref_progressive options, st_format = None\<rparr>;
          strategy1 =
            (if pref_format options = Some ''auto''
             then strategy0\<lparr>st_format :=
                    Some (selectOptimalFormat isFormatSupported analysis options)\<rparr>
             else strategy0);
          strategy2 =
            (if pref_compressionLevel options = Some ''maximum''
             then strategy1\<lparr>st_quality :=
                    mathMax 0.6 (map_option (\<lambda>q. q - 0.1) (pref_quality options))\<rparr>
             else if pref_compressionLevel options = Some ''fast''
             then strategy1\<lparr>st_quality :=
                    mathMin 0.9 (map_option (\<lambda>q. q + 0.1) (pref_quality options))\<rparr>
             else strategy1);
          strategy3 =
            (if img_width imageData * img_height imageData > 1000000
             then strategy2\<lparr>st_progressive := Some True\<rparr>
             else strategy2)
      in strategy3)"

text \<open>An engine with the default options of the main class, a 1x1 image, the flags
  of a graphic, and preferences with the quality 2.\<close>

definition defaultEngine :: engine where
  "defaultEngine =
     \<lparr>this_options = [''quality'' \<mapsto> Num 0.8, ''compressionLevel'' \<mapsto> Str ''balanced''],
      strategies_custom = Map.empty\<rparr>"

definition smallImage :: imageData where
  "smallImage = \<lparr>img_data = [255, 0, 0, 255], img_width = 1, img_height = 1\<rparr>"

definition graphicFlags :: content_flags where
  "graphicFlags = \<lparr>hasTransparency = False, isPhotograph = False, isGraphic = True,
                    hasSharpEdges = False\<rparr>"

definition quality2Balanced :: preferences where
  "quality2Balanced = \<lparr>pref_quality = Some 2, pref_progressive = Some True,
                        pref_format = Some ''auto'', pref_compressionLevel = Some ''balanced''\<rparr>"

text \<open>
  C8, as stated, is false in its last part: a quality of 2, outside \<open>[0, 1]\<close>, is not
  replaced by a default. Both selectors hand it on (the tier \<open>maximum\<close> lowers it to
  1.9), where a missing quality gets the tier's 0.8.
\<close>

theorem C8_invalid_quality_kept:
  "st_quality (determineCompressionStrategy (\<lambda>f. False) smallImage graphicFlags quality2Balanced)
     = Some 2
   \<and> st_quality (determineCompressionStrategy (\<lambda>f. False) smallImage graphicFlags
        (quality2Balanced\<lparr>pref_compressionLevel := Some ''maximum''\<rparr>)) = Some 1.9
   \<and> selectStrategy defaultEngine [''quality'' \<mapsto> Num 2] ''quality'' = Some (Num 2)
   \<and> selectStrategy defaultEngine [''quality'' \<mapsto> Num 2] ''name'' = Some (Str ''balanced'')
   \<and> selectStrategy defaultEngine Map.empty ''quality'' = Some (Num 0.8)"
  by (simp add: determineCompressionStrategy_def quality2Balanced_def smallImage_def
      mathMax_def selectStrategy_def selectedLevel_def lookupStrategy_def strategies_def
      defaultEngine_def getProp_def truthy_def Let_def map_add_def)

text \<open>
  C8, amended: both selectors are total functions of their inputs and raise no error.
  \<open>selectStrategy\<close> hands on every option the caller supplied unchanged, valid or not;
  a missing or falsy compression level is replaced by the engine's, a level that is no
  key of the strategy table by the strategy \<open>custom\<close>, a missing quality by the tier's
  default. \<open>determineCompressionStrategy\<close> hands on the quality, lowered by 0.1 but not
  below 0.6 for \<open>maximum\<close> and raised by 0.1 but not above 0.9 for \<open>fast\<close>; it
  sets the progressive flag above one megapixel and selects a format only for
  \<open>auto\<close>.
\<close>

theorem C8_strategy_selection:
  "(\<forall>key v. options key = Some v \<longrightarrow> selectStrategy eng options key = Some v)
   \<and> (options ''name'' = None \<and> strategies_custom eng ''name'' = None \<longrightarrow>
        selectStrategy eng options ''name'' =
          Some (if lookupStrategy eng (selectedLevel eng options) = None then Str ''custom''
                else selectedLevel eng options))
   \<and> (\<not> truthy (getProp options ''compressionLevel'') \<longrightarrow>
        selectedLevel eng options = getProp (this_options eng) ''compressionLevel'')
   \<and> (options ''quality'' = None \<longrightarrow>
        (selectedLevel eng options = Str ''fast'' \<longrightarrow>
           selectStrategy eng options ''quality'' = Some (Num 0.7))
        \<and> (selectedLevel eng options = Str ''balanced'' \<longrightarrow>
           selectStrategy eng options ''quality'' = Some (Num 0.8))
        \<and> (selectedLevel eng options = Str ''maximum'' \<longrightarrow>
           selectStrategy eng options ''quality'' = Some (Num 0.9)))
   \<and> st_quality (determineCompressionStrategy isFormatSupported imageData analysis prefs) =
       (if pref_compressionLevel prefs = Some ''maximum''
        then map_option (\<lambda>q. max 0.6 (q - 0.1)) (pref_quality prefs)
        else if pref_compressionLevel prefs = Some ''fast''
        then map_option (\<lambda>q. min 0.9 (q + 0.1)) (pref_quality prefs)
        else pref_quality prefs)
   \<and> st_progressive (determineCompressionStrategy isFormatSupported imageData analysis prefs) =
       (if img_width imageData * img_height imageData > 1000000 then Some True
        else pref_progressive prefs)
   \<and> st_format (determineCompressionStrategy isFormatSupported imageData analysis prefs) =
       (if pref_format prefs = Some ''auto''
        then Some (selectOptimalFormat isFormatSupported analysis prefs) else None)"
proof -
  have a: "\<forall>key v. options key = Some v \<longrightarrow> selectStrategy eng options key = Some v"
    by (simp add: selectStrategy_def Let_def map_add_def split: option.splits)
  have b: "options ''name'' = None \<and> strategies_custom eng ''name'' = None \<longrightarrow>
        selectStrategy eng options ''name'' =
          Some (if lookupStrategy eng (selectedLevel eng options) = None then Str ''custom''
                else selectedLevel eng options)"
  proof (intro impI, elim conjE)
    assume n: "options ''name'' = None" "strategies_custom eng ''name'' = None"
    show "selectStrategy eng options ''name'' =
          Some (if lookupStrategy eng (selectedLevel eng options) = None then Str ''custom''
                else selectedLevel eng options)"
    proof (cases "lookupStrategy eng (selectedLevel eng options)")
      case None
      with n show ?thesis by (simp add: selectStrategy_def Let_def map_add_def)
    next
      case (Some strategy)
      then have "strategy ''name'' = None"
        using n(2)
        by (auto simp: lookupStrategy_def strategies_def split: jsval.splits if_splits)
      with Some n show ?thesis by (simp add: selectStrategy_def Let_def map_add_def)
    qed
  qed
  have c: "\<not> truthy (getProp options ''compressionLevel'') \<longrightarrow>
        selectedLevel eng options = getProp (this_options eng) ''compressionLevel''"
    by (simp add: selectedLevel_def)
  have d: "options ''quality'' = None \<longrightarrow>
        (selectedLevel eng options = Str ''fast'' \<longrightarrow>
           selectStrategy eng options ''quality'' = Some (Num 0.7))
        \<and> (selectedLevel eng options = Str ''balanced'' \<longrightarrow>
           selectStrategy eng options ''quality'' = Some (Num 0.8))
        \<and> (selectedLevel eng options = Str ''maximum'' \<longrightarrow>
           selectStrategy eng options ''quality'' = Some (Num 0.9))"
    by (simp add: selectStrategy_def Let_def map_add_def lookupStrategy_def strategies_def)
  have e: "st_quality (determineCompressionStrategy isFormatSupported imageData analysis prefs) =
       (if pref_compressionLevel prefs = Some ''maximum''
        then map_option (\<lambda>q. max 0.6 (q - 0.1)) (pref_quality prefs)
        else if pref_compressionLevel prefs = Some ''fast''
        then map_option (\<lambda>q. min 0.9 (q + 0.1)) (pref_quality prefs)
        else pref_quality prefs)"
    by (simp add: determineCompressionStrategy_def Let_def mathMax_def mathMin_def
        option.map_comp comp_def)
  have f: "st_progressive (determineCompressionStrategy isFormatSupported imageData analysis prefs) =
       (if img_width imageData * img_height imageData > 1000000 then Some True
        else pref_progressive prefs)"
    by (simp add: determineCompressionStrategy_def Let_def)
  have g: "st_format (determineCompressionStrategy isFormatSupported imageData analysis prefs) =
       (if pref_format prefs = Some ''auto''
        then Some (selectOptimalFormat isFormatSupported analysis prefs) else None)"
    by (simp add: determineCompressionStrategy_def Let_def)
  from a b c d e f g show ?thesis by blast
qed

theorem C8_strategy_selection_witness:
  "[''quality'' \<mapsto> Num 2] ''quality'' = Some (Num 2)
   \<and> selectStrategy defaultEngine [''quality'' \<mapsto> Num 2] ''quality'' = Some (Num 2)
   \<and> (Map.empty :: obj) ''quality'' = None
   \<and> selectedLevel defaultEngine Map.empty = Str ''balanced''
   \<and> selectStrategy defaultEngine Map.empty ''quality'' = Some (Num 0.8)"
proof -
  have h1: "[''quality'' \<mapsto> Num 2] ''quality'' = Some (Num 2)" by simp
  have h2: "(Map.empty :: obj) ''quality'' = None" by simp
  have h3: "selectedLevel defaultEngine Map.empty = Str ''balanced''"
    by (simp add: selectedLevel_def defaultEngine_def getProp_def truthy_def)
  have "selectStrategy defaultEngine [''quality'' \<mapsto> Num 2] ''quality'' = Some (Num 2)"
    using C8_strategy_selection[of "[''quality'' \<mapsto> Num 2]" defaultEngine] h1 by blast
  moreover have "selectStrategy defaultEngine Map.empty ''quality'' = Some (Num 0.8)"
    using C8_strategy_selection[of Map.empty defaultEngine] h2 h3 by blast
  ultimately show ?thesis using h1 h2 h3 by blast
qed

section \<open>The transform-quantize codec (algorithms/JPEGCompression.js)\<close>

subsection \<open>Chroma subsampling\<close>

text \<open>
  \<open>applyChromaSubsampling\<close>: the first loop copies every fourth byte (the Y samples) into
  a zero-filled array of the same length; the second visits the 2x2 blocks. In a block, a
  chroma sample that is 0 or outside the array counts as 128 (\<open>|| 128\<close>),
  \<open>Math.round\<close> of a sum of four integers divided by 4 is \<open>(s + 2) div 4\<close>, and the chained
  assignment writes the four positions from right to left.
\<close>

function copyYLoop :: "byte list \<Rightarrow> int \<Rightarrow> byte list \<Rightarrow> byte list" where
  "copyYLoop ycbcrData i subsampledData =
     (if i < int (length ycbcrData)
      then copyYLoop ycbcrData (i + 4)
             (store subsampledData i (toUint8 (byteValue (load ycbcrData i))))
      else subsampledData)"
  by pat_completeness auto
termination
  by (relation "measure (\<lambda>(d, i, s). nat (int (length d) - i))") auto

declare copyYLoop.simps [simp del]

definition orDefault128 :: "byte option \<Rightarrow> int" where
  "orDefault128 b = (case b of None \<Rightarrow> 128 | Some v \<Rightarrow> if v = 0 then 128 else uint v)"

definition roundQuarter :: "int \<Rightarrow> int" where
  "roundQuarter s = (s + 2) div 4"

definition subsampleBlock :: "byte list \<Rightarrow> int \<Rightarrow> int \<Rightarrow> int \<Rightarrow> byte list \<Rightarrow> byte list" where
  "subsampleBlock ycbcrData width y x subsampledData =
     (let pos1 = (y * width + x) * 4;
          pos2 = (y * width + x + 1) * 4;
          pos3 = ((y + 1) * width + x) * 4;
          pos4 = ((y + 1) * width + x + 1) * 4;
          cb1 = orDefault128 (load ycbcrData (pos1 + 1));
          cb2 = orDefault128 (load ycbcrData (pos2 + 1));
          cb3 = orDefault128 (load ycbcrData (pos3 + 1));
          cb4 = orDefault128 (load ycbcrData (pos4 + 1));
          cr1 = orDefault128 (load ycbcrData (pos1 + 2));
          cr2 = orDefault128 (load ycbcrData (pos2 + 2));
          cr3 = orDefault128 (load ycbcrData (pos3 + 2));
          cr4 = orDefault128 (load ycbcrData (pos4 + 2));
          avgCb = roundQuarter (cb1 + cb2 + cb3 + cb4);
          avgCr = roundQuarter (cr1 + cr2 + cr3 + cr4);
          s1 = store subsampledData (pos4 + 1) (toUint8 (Some avgCb));
          s2 = store s1 (pos3 + 1) (toUint8 (Some avgCb));
          s3 = store s2 (pos2 + 1) (toUint8 (Some avgCb));
          s4 = store s3 (pos1 + 1) (toUint8 (Some avgCb));
          s5 = store s4 (pos4 + 2) (toUint8 (Some avgCr));
          s6 = store s5 (pos3 + 2) (toUint8 (Some avgCr));
          s7 = store s6 (pos2 + 2) (toUint8 (Some avgCr));
          s8 = store s7 (pos1 + 2) (toUint8 (Some avgCr));
          s9 = store s8 (pos1 + 3) (toUint8 (byteValue (load ycbcrData (pos1 + 3))));
          s10 = store s9 (pos2 + 3) (toUint8 (byteValue (load ycbcrData (pos2 + 3))));
          s11 = store s10 (pos3 + 3) (toUint8 (byteValue (load ycbcrData (pos3 + 3))));
          s12 = store s11 (pos4 + 3) (toUint8 (byteValue (load ycbcrData (pos4 + 3))))
      in s12)"

function subsampleLoopX ::
  "byte list \<Rightarrow> int \<Rightarrow> int \<Rightarrow> int \<Rightarrow> byte list \<Rightarrow> byte list" where
  "subsampleLoopX ycbcrData width y x subsampledData =
     (if x < width
      then subsampleLoopX ycbcrData width y (x + 2)
             (subsampleBlock ycbcrData width y x subsampledData)
      else subsampledData)"
  by pat_completeness auto
termination
  by (relation "measure (\<lambda>(d, w, y, x, s). nat (w - x))") auto

declare subsampleLoopX.simps [simp del]

function subsampleLoopY ::
  "byte list \<Rightarrow> int \<Rightarrow> int \<Rightarrow> int \<Rightarrow> byte list \<Rightarrow> byte list" where
  "subsampleLoopY ycbcrData width height y subsampledData =
     (if y < height
      then subsampleLoopY ycbcrData width height (y + 2)
             (subsampleLoopX ycbcrData width y 0 subsampledData)
      else subsampledData)"
  by pat_completeness auto
termination
  by (relation "measure (\<lambda>(d, w, h, y, s). nat (h - y))") auto

declare subsampleLoopY.simps [simp del]

definition applyChromaSubsampling :: "byte list \<Rightarrow> int \<Rightarrow> int \<Rightarrow> byte list" where
  "applyChromaSubsampling ycbcrData width height =
     subsampleLoopY ycbcrData width height 0
       (copyYLoop ycbcrData 0 (replicate (length ycbcrData) 0))"

subsection \<open>Chroma subsampling keeps the luma channel\<close>

definition keepsY :: "byte list \<Rightarrow> byte list \<Rightarrow> bool" where
  "keepsY a b = (length b = length a \<and> (\<forall>i<length a. i mod 4 = 0 \<longrightarrow> b ! i = a ! i))"

lemma keepsY_refl: "keepsY a a"
  by (simp add: keepsY_def)

lemma keepsY_trans: "keepsY a b \<Longrightarrow> keepsY b c \<Longrightarrow> keepsY a c"
  by (simp add: keepsY_def)

lemma length_store [simp]: "length (store a i v) = length a"
  by (simp add: store_def)

lemma int_mod4: "(int i mod 4 = 0) = (i mod 4 = 0)"
  by presburger

lemma store_keepsY:
  assumes "j mod 4 \<noteq> 0"
  shows "keepsY a (store a j v)"
proof -
  have "store a j v ! i = a ! i" if "i mod 4 = 0" for i :: nat
  proof (cases "0 \<le> j \<and> j < int (length a)")
    case True
    have "nat j \<noteq> i"
    proof
      assume "nat j = i"
      with True have "j = int i" by linarith
      with that assms show False by (simp add: int_mod4)
    qed
    with True show ?thesis by (simp add: store_def)
  next
    case False
    then have "store a j v = a" unfolding store_def by (rule if_not_P)
    then show ?thesis by simp
  qed
  then show ?thesis by (simp add: keepsY_def)
qed

lemma store_keepsY_after: "j mod 4 \<noteq> 0 \<Longrightarrow> keepsY a b \<Longrightarrow> keepsY a (store b j v)"
  using keepsY_trans store_keepsY by blast

lemma subsampleBlock_keepsY: "keepsY s (subsampleBlock d w y x s)"
proof -
  have m: "(k * 4 + 1) mod 4 \<noteq> 0" "(k * 4 + 2) mod 4 \<noteq> 0" "(k * 4 + 3) mod 4 \<noteq> 0"
    for k :: int
    by presburger+
  show ?thesis
    unfolding subsampleBlock_def Let_def
    by (intro store_keepsY_after m keepsY_refl)
qed

lemma subsampleLoopX_keepsY: "keepsY s (subsampleLoopX d w y x s)"
proof (induction d w y x s rule: subsampleLoopX.induct)
  case (1 d w y x s)
  show ?case
  proof (cases "x < w")
    case True
    have "keepsY (subsampleBlock d w y x s)
            (subsampleLoopX d w y (x + 2) (subsampleBlock d w y x s))"
      using "1.IH"[OF True] .
    with subsampleBlock_keepsY[of s d w y x] show ?thesis
      using True by (subst subsampleLoopX.simps) (auto intro: keepsY_trans)
  next
    case False
    then show ?thesis by (subst subsampleLoopX.simps) (simp add: keepsY_refl)
  qed
qed

lemma subsampleLoopY_keepsY: "keepsY s (subsampleLoopY d w h y s)"
proof (induction d w h y s rule: subsampleLoopY.induct)
  case (1 d w h y s)
  show ?case
  proof (cases "y < h")
    case True
    have "keepsY (subsampleLoopX d w y 0 s)
            (subsampleLoopY d w h (y + 2) (subsampleLoopX d w y 0 s))"
      using "1.IH"[OF True] .
    with subsampleLoopX_keepsY[of s d w y 0] show ?thesis
      using True by (subst subsampleLoopY.simps) (auto intro: keepsY_trans)
  next
    case False
    then show ?thesis by (subst subsampleLoopY.simps) (simp add: keepsY_refl)
  qed
qed

lemma toUint8_byteValue [simp]: "toUint8 (byteValue (Some b)) = b"
  by (simp add: toUint8_def byteValue_def)

lemma copyYLoop_spec:
  "length s = length d \<Longrightarrow> 0 \<le> i \<Longrightarrow> i mod 4 = 0 \<Longrightarrow>
   length (copyYLoop d i s) = length d \<and>
   (\<forall>j<length d. j mod 4 = 0 \<longrightarrow>
      copyYLoop d i s ! j = (if i \<le> int j then d ! j else s ! j))"
proof (induction d i s rule: copyYLoop.induct)
  case (1 d i s)
  show ?case
  proof (cases "i < int (length d)")
    case False
    then show ?thesis using "1.prems" by (subst (1 2) copyYLoop.simps) simp
  next
    case True
    let ?s' = "store s i (toUint8 (byteValue (load d i)))"
    have ld: "load d i = Some (d ! nat i)"
      using True "1.prems" by (simp add: load_def)
    have s': "?s' = s[nat i := d ! nat i]"
      using True "1.prems" by (simp add: store_def ld)
    have IH: "length (copyYLoop d (i + 4) ?s') = length d \<and>
      (\<forall>j<length d. j mod 4 = 0 \<longrightarrow>
        copyYLoop d (i + 4) ?s' ! j = (if i + 4 \<le> int j then d ! j else ?s' ! j))"
      using "1.IH"[OF True] "1.prems" by simp
    have unf: "copyYLoop d i s = copyYLoop d (i + 4) ?s'"
      using True by (subst copyYLoop.simps) simp
    have "copyYLoop d i s ! j = (if i \<le> int j then d ! j else s ! j)"
      if j: "j < length d" "j mod 4 = 0" for j
    proof -
      from IH j have e: "copyYLoop d i s ! j = (if i + 4 \<le> int j then d ! j else ?s' ! j)"
        by (simp only: unf)
      show ?thesis
      proof (cases "i + 4 \<le> int j")
        case True
        with e show ?thesis by simp
      next
        case False
        note nf = False
        show ?thesis
        proof (cases "i \<le> int j")
          case True
          have "int j mod 4 = 0" using j(2) by (simp add: int_mod4)
          with True nf "1.prems" have "int j = i" by presburger
          then have "nat i = j" by simp
          with e nf True j "1.prems" show ?thesis by (simp add: s')
        next
          case False
          then have "nat i \<noteq> j" using "1.prems" by linarith
          with e nf False show ?thesis by (simp add: s')
        qed
      qed
    qed
    with IH unf show ?thesis by simp
  qed
qed

text \<open>
  C10: for every sample array and all dimensions, the array \<open>applyChromaSubsampling\<close>
  returns has the length of its input, and every byte at an offset that is a multiple of
  4 (a Y sample) equals the byte of the input at that offset.
\<close>

theorem C10_chroma_keeps_luma:
  "length (applyChromaSubsampling ycbcrData width height) = length ycbcrData
   \<and> (\<forall>i<length ycbcrData. i mod 4 = 0 \<longrightarrow>
        applyChromaSubsampling ycbcrData width height ! i = ycbcrData ! i)"
proof -
  let ?s0 = "copyYLoop ycbcrData 0 (replicate (length ycbcrData) 0)"
  have c: "length ?s0 = length ycbcrData \<and>
     (\<forall>j<length ycbcrData. j mod 4 = 0 \<longrightarrow> ?s0 ! j = ycbcrData ! j)"
    using copyYLoop_spec[of "replicate (length ycbcrData) 0" ycbcrData 0] by simp
  have k: "keepsY ?s0 (applyChromaSubsampling ycbcrData width height)"
    unfolding applyChromaSubsampling_def by (rule subsampleLoopY_keepsY)
  from c k show ?thesis by (simp add: keepsY_def)
qed

theorem C10_chroma_keeps_luma_witness:
  "(4::nat) < length [10, 20, 30, 255, 11, 0, 50, 255, 12, 60, 70, 255, 13, 80, 90, 255 :: byte]
   \<and> (4::nat) mod 4 = 0
   \<and> applyChromaSubsampling [10, 20, 30, 255, 11, 0, 50, 255, 12, 60, 70, 255, 13, 80, 90, 255] 2 2 ! 4 = 11
   \<and> applyChromaSubsampling [10, 20, 30, 255, 11, 0, 50, 255, 12, 60, 70, 255, 13, 80, 90, 255] 2 2
       = [10, 72, 60, 255, 11, 72, 60, 255, 12, 72, 60, 255, 13, 72, 60, 255]"
proof -
  have e: "applyChromaSubsampling [10, 20, 30, 255, 11, 0, 50, 255, 12, 60, 70, 255, 13, 80, 90, 255] 2 2
       = [10, 72, 60, 255, 11, 72, 60, 255, 12, 72, 60, 255, 13, 80 - 8, 60, 255]"
    by code_simp
  have "applyChromaSubsampling [10, 20, 30, 255, 11, 0, 50, 255, 12, 60, 70, 255, 13, 80, 90, 255] 2 2 ! 4
      = [10, 20, 30, 255, 11, 0, 50, 255, 12, 60, 70, 255, 13, 80, 90, 255 :: byte] ! 4"
    using C10_chroma_keeps_luma[of "[10, 20, 30, 255, 11, 0, 50, 255, 12, 60, 70, 255, 13, 80, 90, 255]" 2 2]
    by simp
  then show ?thesis using e by simp
qed

subsection \<open>Colour conversion\<close>

text \<open>\<open>convertRGBToYCbCr\<close>, four bytes at a time.\<close>

function convertLoop :: "byte list \<Rightarrow> int \<Rightarrow> byte list \<Rightarrow> byte list" where
  "convertLoop rgbData i ycbcrData =
     (if i < int (length rgbData)
      then
        (let r = num (load rgbData i);
             g = num (load rgbData (i + 1));
             b = num (load rgbData (i + 2));
             y = mathRound (fadd (fadd (fmul (Some 0.299) r) (fmul (Some 0.587) g))
                                 (fmul (Some 0.114) b));
             cb = mathRound (fadd (fsub (fsub (Some 128) (fmul (Some 0.168736) r))
                                        (fmul (Some 0.331264) g))
                                  (fmul (Some 0.5) b));
             cr = mathRound (fsub (fsub (fadd (Some 128) (fmul (Some 0.5) r))
                                        (fmul (Some 0.418688) g))
                                  (fmul (Some 0.081312) b));
             d1 = store ycbcrData i (toUint8 (clamp255 y));
             d2 = store d1 (i + 1) (toUint8 (clamp255 cb));
             d3 = store d2 (i + 2) (toUint8 (clamp255 cr));
             d4 = store d3 (i + 3) (toUint8 (byteValue (load rgbData (i + 3))))
         in convertLoop rgbData (i + 4) d4)
      else ycbcrData)"
  by pat_completeness auto
termination
  by (relation "measure (\<lambda>(d, i, s). nat (int (length d) - i))") auto

declare convertLoop.simps [simp del]

definition convertRGBToYCbCr :: "byte list \<Rightarrow> byte list" where
  "convertRGBToYCbCr rgbData = convertLoop rgbData 0 (replicate (length rgbData) 0)"

subsection \<open>Block transform and quantization\<close>

text \<open>The two quantization tables of the constructor, and the scale a quality selects.\<close>

definition luminanceQuantTable :: "real list" where
  "luminanceQuantTable =
     [16, 11, 10, 16, 24, 40, 51, 61,
      12, 12, 14, 19, 26, 58, 60, 55,
      14, 13, 16, 24, 40, 57, 69, 56,
      14, 17, 22, 29, 51, 87, 80, 62,
      18, 22, 37, 56, 68, 109, 103, 77,
      24, 35, 55, 64, 81, 104, 113, 92,
      49, 64, 78, 87, 103, 121, 120, 101,
      72, 92, 95, 98, 112, 100, 103, 99]"

definition chrominanceQuantTable :: "real list" where
  "chrominanceQuantTable =
     [17, 18, 24, 47, 99, 99, 99, 99,
      18, 21, 26, 66, 99, 99, 99, 99,
      24, 26, 56, 99, 99, 99, 99, 99,
      47, 66, 99, 99, 99, 99, 99, 99,
      99, 99, 99, 99, 99, 99, 99, 99,
      99, 99, 99, 99, 99, 99, 99, 99,
      99, 99, 99, 99, 99, 99, 99, 99,
      99, 99, 99, 99, 99, 99, 99, 99]"

definition calculateQualityScale :: "real \<Rightarrow> real" where
  "calculateQualityScale quality =
     (if quality \<ge> 0.9 then 0.5
      else if quality \<ge> 0.8 then 0.75
      else if quality \<ge> 0.7 then 1.0
      else if quality \<ge> 0.6 then 1.25
      else if quality \<ge> 0.5 then 1.5
      else 2.0)"

text \<open>
  \<open>extractBlock\<close> and \<open>writeBlock\<close> address the same pixel for \<open>(x, y)\<close> of a block:
  coordinates beyond the image are clamped to the last column and row.
\<close>

definition pixelIndex :: "int \<Rightarrow> int \<Rightarrow> int \<Rightarrow> int \<Rightarrow> nat \<Rightarrow> nat \<Rightarrow> nat \<Rightarrow> int" where
  "pixelIndex width height startX startY channel y x =
     (let pixelX = min (startX + int x) (width - 1);
          pixelY = min (startY + int y) (height - 1)
      in (pixelY * width + pixelX) * 4 + int channel)"

definition extractBlock ::
  "byte list \<Rightarrow> int \<Rightarrow> int \<Rightarrow> int \<Rightarrow> int \<Rightarrow> nat \<Rightarrow> jsnum list" where
  "extractBlock data width height startX startY channel =
     fold (\<lambda>y block.
       fold (\<lambda>x block.
         block[y * 8 + x :=
           fsub (num (load data (pixelIndex width height startX startY channel y x))) (Some 128)])
         [0..<8] block)
       [0..<8] (replicate 64 (Some 0))"

text \<open>
  \<open>applyDCT\<close>: for every \<open>(u, v)\<close> the sum over the 64 pixels, scaled by \<open>cu\<close>, \<open>cv\<close>
  and \<open>1 / 16\<close>, is written at \<open>v * 8 + u\<close>.
\<close>

definition cu :: "nat \<Rightarrow> real" where
  "cu u = (if u = 0 then 1 / sqrt 2 else 1)"

definition cv :: "nat \<Rightarrow> real" where
  "cv v = (if v = 0 then 1 / sqrt 2 else 1)"

definition dctSum :: "jsnum list \<Rightarrow> nat \<Rightarrow> nat \<Rightarrow> jsnum" where
  "dctSum block u v =
     fold (\<lambda>x sum.
       fold (\<lambda>y sum.
         (let pixel = block ! (y * 8 + x);
              cosX = cos (real ((2 * x + 1) * u) * pi / 16);
              cosY = cos (real ((2 * y + 1) * v) * pi / 16)
          in fadd sum (fmul (fmul pixel (Some cosX)) (Some cosY))))
         [0..<8] sum)
       [0..<8] (Some 0)"

definition applyDCT :: "jsnum list \<Rightarrow> jsnum list" where
  "applyDCT block =
     (let scale = 1 / 16
      in fold (\<lambda>u dctBlock.
           fold (\<lambda>v dctBlock.
             dctBlock[v * 8 + u :=
               fmul (fmul (fmul (dctSum block u v) (Some (cu u))) (Some (cv v))) (Some scale)])
             [0..<8] dctBlock)
           [0..<8] (replicate 64 (Some 0)))"

text \<open>
  \<open>quantizeBlock\<close> divides coefficient \<open>i\<close> by \<open>quantTable[i] * qualityScale\<close>, the
  quantization step, and rounds.
\<close>

definition quantStep :: "nat \<Rightarrow> real \<Rightarrow> nat \<Rightarrow> real" where
  "quantStep channel qualityScale i =
     (if channel = 0 then luminanceQuantTable else chrominanceQuantTable) ! i * qualityScale"

definition quantizeBlock :: "jsnum list \<Rightarrow> nat \<Rightarrow> real \<Rightarrow> int list" where
  "quantizeBlock dctBlock channel qualityScale =
     fold (\<lambda>i quantizedBlock.
       quantizedBlock[i :=
         toInt16 (mathRound (fdiv (dctBlock ! i) (Some (quantStep channel qualityScale i))))])
       [0..<64] (replicate 64 0)"

definition writeBlock ::
  "byte list \<Rightarrow> int \<Rightarrow> int \<Rightarrow> int \<Rightarrow> int \<Rightarrow> nat \<Rightarrow> int list \<Rightarrow> byte list" where
  "writeBlock data width height startX startY channel quantizedBlock =
     fold (\<lambda>y data.
       fold (\<lambda>x data.
         store data (pixelIndex width height startX startY channel y x)
           (toUint8 (Some (max 0 (min 255 (quantizedBlock ! (y * 8 + x) + 128))))))
         [0..<8] data)
       [0..<8] data"

text \<open>\<open>performDCTQuantization\<close>: the three channels of one block, and the loops over the
  blocks of a row and over the rows of blocks.\<close>

definition processBlock ::
  "byte list \<Rightarrow> int \<Rightarrow> int \<Rightarrow> real \<Rightarrow> int \<Rightarrow> int \<Rightarrow> byte list \<Rightarrow> byte list" where
  "processBlock ycbcrData width height qualityScale y x processedData =
     fold (\<lambda>channel processedData.
       (let block = extractBlock ycbcrData width height x y channel;
            dctBlock = applyDCT block;
            quantizedBlock = quantizeBlock dctBlock channel qualityScale
        in writeBlock processedData width height x y channel quantizedBlock))
       [0..<3] processedData"

function dctLoopX ::
  "byte list \<Rightarrow> int \<Rightarrow> int \<Rightarrow> real \<Rightarrow> int \<Rightarrow> int \<Rightarrow> byte list \<Rightarrow> byte list" where
  "dctLoopX ycbcrData width height qualityScale y x processedData =
     (if x < width
      then dctLoopX ycbcrData width height qualityScale y (x + 8)
             (processBlock ycbcrData width height qualityScale y x processedData)
      else processedData)"
  by pat_completeness auto
termination
  by (relation "measure (\<lambda>(d, w, h, q, y, x, s). nat (w - x))") auto

declare dctLoopX.simps [simp del]

function dctLoopY ::
  "byte list \<Rightarrow> int \<Rightarrow> int \<Rightarrow> real \<Rightarrow> int \<Rightarrow> byte list \<Rightarrow> byte list" where
  "dctLoopY ycbcrData width height qualityScale y processedData =
     (if y < height
      then dctLoopY ycbcrData width height qualityScale (y + 8)
             (dctLoopX ycbcrData width height qualityScale y 0 processedData)
      else processedData)"
  by pat_completeness auto
termination
  by (relation "measure (\<lambda>(d, w, h, q, y, s). nat (h - y))") auto

declare dctLoopY.simps [simp del]

definition performDCTQuantization :: "byte list \<Rightarrow> int \<Rightarrow> int \<Rightarrow> real \<Rightarrow> byte list" where
  "performDCTQuantization ycbcrData width height quality =
     (let qualityScale = calculateQualityScale quality
      in dctLoopY ycbcrData width height qualityScale 0 (replicate (length ycbcrData) 0))"

subsection \<open>The byte stream\<close>

text \<open>
  \<open>encodeImageData\<close> pushes a scan header and then three bytes of every pixel;
  \<open>encodeJPEG\<close> puts the markers around it. The arrays are plain arrays until the final
  \<open>new Uint8Array(jpegData)\<close>, so a read beyond \<open>processedData\<close> pushes \<open>undefined\<close>.
  \<open>(height >> 8) & 0xFF\<close> and \<open>height & 0xFF\<close> are the two low bytes of the height.
\<close>

function encodeLoop :: "byte list \<Rightarrow> int \<Rightarrow> int option list \<Rightarrow> int option list" where
  "encodeLoop processedData i encodedData =
     (if i < int (length processedData)
      then encodeLoop processedData (i + 4)
             (encodedData @ [byteValue (load processedData i),
                             byteValue (load processedData (i + 1)),
                             byteValue (load processedData (i + 2))])
      else encodedData)"
  by pat_completeness auto
termination
  by (relation "measure (\<lambda>(d, i, s). nat (int (length d) - i))") auto

declare encodeLoop.simps [simp del]

definition encodeImageData :: "byte list \<Rightarrow> int \<Rightarrow> int \<Rightarrow> int option list" where
  "encodeImageData processedData width height =
     encodeLoop processedData 0
       (map Some [0xFF, 0xDA, 0x00, 0x0C, 0x03, 0x01, 0x00, 0x02, 0x11, 0x03, 0x11,
                  0x00, 0x3F, 0x00])"

record encode_options =
  enc_width :: int
  enc_height :: int
  enc_quality :: real
  enc_progressive :: bool

definition encodeJPEG :: "byte list \<Rightarrow> encode_options \<Rightarrow> byte list" where
  "encodeJPEG processedData options =
     (let width = enc_width options;
          height = enc_height options;
          jpegData =
            map Some [0xFF, 0xD8]
            @ map Some [0xFF, 0xE0, 0x00, 0x10, 0x4A, 0x46, 0x49, 0x46, 0x00, 0x01, 0x01, 0x01,
                        0x00, 0x48, 0x00, 0x48, 0x00, 0x00]
            @ map Some [0xFF, 0xC0, 0x00, 0x11, 0x08,
                        (height div 256) mod 256, height mod 256,
                        (width div 256) mod 256, width mod 256, 0x03]
            @ map Some [0x01, 0x11, 0x00, 0x02, 0x11, 0x01, 0x03, 0x11, 0x01]
            @ encodeImageData processedData width height
            @ map Some [0xFF, 0xD9]
      in map toUint8 jpegData)"

subsection \<open>compress\<close>

text \<open>
  \<open>createCanvas\<close>, \<open>getContext\<close> and
  \<open>getImageData\<close> belong to the host platform: \<open>canvas_host\<close> is what they deliver for
  an image, the RGBA bytes or the exception they raise. \<open>compress\<close> catches every
  exception of its body and raises a \<open>CompressionError\<close> for the algorithm
  \<open>jpeg\<close>. \<open>options.quality || 0.8\<close> replaces an undefined, \<open>NaN\<close> or zero quality.
\<close>

type_synonym canvas_host = "imageData \<Rightarrow> js_error + byte list"

record jpeg_options =
  opt_quality :: jsnum
  opt_progressive :: "bool option"
  opt_chromaSubsampling :: "bool option"

record jpeg_result =
  res_data :: "byte list"
  res_size :: nat
  res_width :: int
  res_height :: int
  res_format :: string
  res_quality :: real

definition qualityOrDefault :: "jpeg_options \<Rightarrow> real" where
  "qualityOrDefault options =
     (case opt_quality options of None \<Rightarrow> 0.8 | Some q \<Rightarrow> if q = 0 then 0.8 else q)"

definition JPEG_compress :: "canvas_host \<Rightarrow> imageData \<Rightarrow> jpeg_options \<Rightarrow> js_error + jpeg_result" where
  "JPEG_compress canvas imageData options =
     (case canvas imageData of
        Inl error \<Rightarrow>
          Inl (CompressionError (''JPEG compression failed: '' @ err_message error) ''jpeg'')
      | Inr rgbData \<Rightarrow>
          (let ycbcrData = convertRGBToYCbCr rgbData;
               subsampledData =
                 (if opt_chromaSubsampling options \<noteq> Some False
                  then applyChromaSubsampling ycbcrData (img_width imageData) (img_height imageData)
                  else ycbcrData);
               compressedData =
                 performDCTQuantization subsampledData (img_width imageData)
                   (img_height imageData) (qualityOrDefault options);
               jpegData =
                 encodeJPEG compressedData
                   \<lparr>enc_width = img_width imageData, enc_height = img_height imageData,
                    enc_quality = qualityOrDefault options,
                    enc_progressive =
                      (case opt_progressive options of None \<Rightarrow> False | Some p \<Rightarrow> p)\<rparr>
           in Inr \<lparr>res_data = jpegData, res_size = length jpegData,
                   res_width = img_width imageData, res_height = img_height imageData,
                   res_format = ''jpeg'', res_quality = qualityOrDefault options\<rparr>))"

subsection \<open>Input validation of the engine (core/CompressionEngine.js)\<close>

text \<open>
  \<open>validateInput\<close> of the engine. The buffer and its \<open>data\<close> are present in this model,
  so the first two checks pass. Each remaining check throws \<open>new ValidationError(...)\<close>;
  the module imports only \<open>CompressionError\<close> and \<open>MemoryError\<close>, so what is thrown is
  a \<open>ReferenceError\<close> for the unbound name. \<open>CompressionEngine.compress\<close> runs
  \<open>validateInput\<close> first inside its \<open>try\<close> and turns every exception into a
  \<open>CompressionError\<close> for the algorithm \<open>auto\<close>; \<open>encode\<close> stands for the rest of
  the \<open>try\<close> block (strategy, pre-processing, the selected codec, post-processing).
\<close>

definition validateInput :: "imageData \<Rightarrow> js_error + unit" where
  "validateInput imageData =
     (if img_width imageData = 0 \<or> img_height imageData = 0
      then Inl (ReferenceError ''ValidationError is not defined'')
      else if img_width imageData > 32767 \<or> img_height imageData > 32767
      then Inl (ReferenceError ''ValidationError is not defined'')
      else if img_width imageData < 1 \<or> img_height imageData < 1
      then Inl (ReferenceError ''ValidationError is not defined'')
      else Inr ())"

definition CompressionEngine_compress ::
  "(imageData \<Rightarrow> 'o \<Rightarrow> js_error + 'r) \<Rightarrow> imageData \<Rightarrow> 'o \<Rightarrow> js_error + 'r" where
  "CompressionEngine_compress encode imageData options =
     (case validateInput imageData of
        Inl error \<Rightarrow> Inl (CompressionError (err_message error) ''auto'')
      | Inr _ \<Rightarrow>
          (case encode imageData options of
             Inl error \<Rightarrow> Inl (CompressionError (err_message error) ''auto'')
           | Inr result \<Rightarrow> Inr result))"

subsection \<open>Array lengths along the pipeline\<close>

lemma length_fold_update:
  "length (fold (\<lambda>x b. b[f x := g x b]) xs b) = length b"
  by (induction xs arbitrary: b) simp_all

lemma length_fold_store:
  "length (fold (\<lambda>x d. store d (f x) (g x d)) xs d) = length d"
  by (induction xs arbitrary: d) simp_all

lemma length_writeBlock [simp]:
  "length (writeBlock data width height startX startY channel q) = length data"
proof -
  have inner: "length (fold (\<lambda>x data.
         store data (pixelIndex width height startX startY channel y x)
           (toUint8 (Some (max 0 (min 255 (q ! (y * 8 + x) + 128)))))) xs d) = length d"
    for y xs d
    by (induction xs arbitrary: d) simp_all
  have outer: "length (fold (\<lambda>y data. fold (\<lambda>x data.
         store data (pixelIndex width height startX startY channel y x)
           (toUint8 (Some (max 0 (min 255 (q ! (y * 8 + x) + 128)))))) [0..<8] data) ys d)
       = length d" for ys d
    by (induction ys arbitrary: d) (simp_all add: inner)
  show ?thesis unfolding writeBlock_def by (rule outer)
qed

lemma length_processBlock [simp]:
  "length (processBlock ycbcrData width height qualityScale y x processedData)
   = length processedData"
proof -
  have "length (fold (\<lambda>channel processedData.
       (let block = extractBlock ycbcrData width height x y channel;
            dctBlock = applyDCT block;
            quantizedBlock = quantizeBlock dctBlock channel qualityScale
        in writeBlock processedData width height x y channel quantizedBlock)) cs d)
     = length d" for cs d
    by (induction cs arbitrary: d) (simp_all add: Let_def)
  then show ?thesis unfolding processBlock_def .
qed

lemma length_dctLoopX [simp]:
  "length (dctLoopX ycbcrData width height qualityScale y x processedData)
   = length processedData"
proof (induction ycbcrData width height qualityScale y x processedData rule: dctLoopX.induct)
  case (1 d w h q y x s)
  show ?case
  proof (cases "x < w")
    case True
    then show ?thesis using "1.IH"[OF True] by (subst dctLoopX.simps) simp
  next
    case False
    then show ?thesis by (subst dctLoopX.simps) simp
  qed
qed

lemma length_dctLoopY [simp]:
  "length (dctLoopY ycbcrData width height qualityScale y processedData)
   = length processedData"
proof (induction ycbcrData width height qualityScale y processedData rule: dctLoopY.induct)
  case (1 d w h q y s)
  show ?case
  proof (cases "y < h")
    case True
    then show ?thesis using "1.IH"[OF True] by (subst dctLoopY.simps) simp
  next
    case False
    then show ?thesis by (subst dctLoopY.simps) simp
  qed
qed

lemma length_performDCTQuantization [simp]:
  "length (performDCTQuantization ycbcrData width height quality) = length ycbcrData"
  by (simp add: performDCTQuantization_def)

lemma length_convertLoop [simp]:
  "length (convertLoop rgbData i ycbcrData) = length ycbcrData"
proof (induction rgbData i ycbcrData rule: convertLoop.induct)
  case (1 d i s)
  show ?case
  proof (cases "i < int (length d)")
    case True
    then show ?thesis using "1.IH"[OF True refl refl refl refl refl refl refl refl refl refl]
      by (subst convertLoop.simps) (simp add: Let_def)
  next
    case False
    then show ?thesis by (subst convertLoop.simps) simp
  qed
qed

lemma length_convertRGBToYCbCr [simp]: "length (convertRGBToYCbCr rgbData) = length rgbData"
  by (simp add: convertRGBToYCbCr_def)

lemma length_applyChromaSubsampling [simp]:
  "length (applyChromaSubsampling ycbcrData width height) = length ycbcrData"
proof -
  have "length (copyYLoop ycbcrData 0 (replicate (length ycbcrData) 0)) = length ycbcrData"
    using copyYLoop_spec[of "replicate (length ycbcrData) 0" ycbcrData 0] by simp
  moreover have "keepsY (copyYLoop ycbcrData 0 (replicate (length ycbcrData) 0))
     (applyChromaSubsampling ycbcrData width height)"
    unfolding applyChromaSubsampling_def by (rule subsampleLoopY_keepsY)
  ultimately show ?thesis by (simp add: keepsY_def)
qed

lemma length_encodeLoop:
  "length (encodeLoop d i acc) = length acc + 3 * nat ((int (length d) - i + 3) div 4)"
proof (induction d i acc rule: encodeLoop.induct)
  case (1 d i acc)
  show ?case
  proof (cases "i < int (length d)")
    case True
    have "nat ((int (length d) - i + 3) div 4) = Suc (nat ((int (length d) - (i + 4) + 3) div 4))"
      using True by linarith
    then show ?thesis using "1.IH"[OF True] True by (subst encodeLoop.simps) simp
  next
    case False
    then have "nat ((int (length d) - i + 3) div 4) = 0" by linarith
    then show ?thesis using False by (subst encodeLoop.simps) simp
  qed
qed

lemma length_encodeJPEG:
  "length (encodeJPEG processedData options) = 55 + 3 * ((length processedData + 3) div 4)"
proof -
  have "nat ((int (length processedData) - 0 + 3) div 4) = (length processedData + 3) div 4"
    by linarith
  then show ?thesis
    by (simp add: encodeJPEG_def encodeImageData_def length_encodeLoop Let_def)
qed

subsection \<open>The DC coefficient\<close>

lemma upt_0_8: "[0..<8] = [0, 1, 2, 3, 4, 5, 6, 7]"
  by code_simp

lemma applyDCT_dc:
  "applyDCT block ! 0 =
     fmul (fmul (fmul (dctSum block 0 0) (Some (cu 0))) (Some (cv 0))) (Some (1 / 16))"
  unfolding applyDCT_def Let_def upt_0_8
  by simp

lemma fadd_Some [simp]: "fadd (Some x) (Some y) = Some (x + y)"
  by (simp add: fadd_def)

lemma fmul_Some [simp]: "fmul (Some x) (Some y) = Some (x * y)"
  by (simp add: fmul_def)

lemma fmul_one [simp]: "fmul p (Some 1) = p"
  by (cases p) (simp_all add: fmul_def)

lemma dctSum_dc:
  "dctSum block 0 0 =
     fold (\<lambda>x sum. fold (\<lambda>y sum. fadd sum (block ! (y * 8 + x))) [0..<8] sum) [0..<8] (Some 0)"
  by (simp add: dctSum_def)

lemma fold_fadd_sum:
  "fold (\<lambda>y s. fadd s (Some (f y))) [0..<n] (Some a) = Some (a + (\<Sum>y<n. f y))"
  by (induction n) (simp_all add: add.assoc)

lemma dctSum_defined:
  "dctSum (map (\<lambda>i. Some (px i)) [0..<64]) 0 0 = Some (\<Sum>x<8. \<Sum>y<8. px (y * 8 + x))"
proof -
  let ?block = "map (\<lambda>i. Some (px i)) [0..<64]"
  have inner: "fold (\<lambda>y sum. fadd sum (?block ! (y * 8 + x))) [0..<8] (Some a)
      = Some (a + (\<Sum>y<8. px (y * 8 + x)))" if "x < 8" for x a
  proof -
    have "fold (\<lambda>y sum. fadd sum (?block ! (y * 8 + x))) [0..<8] (Some a)
      = fold (\<lambda>y s. fadd s (Some (px (y * 8 + x)))) [0..<8] (Some a)"
      using that by (intro fold_cong refl) auto
    then show ?thesis by (simp only: fold_fadd_sum)
  qed
  have outer: "fold (\<lambda>x sum. fold (\<lambda>y sum. fadd sum (?block ! (y * 8 + x))) [0..<8] sum)
        [0..<n] (Some a)
      = Some (a + (\<Sum>x<n. \<Sum>y<8. px (y * 8 + x)))" if "n \<le> 8" for n a
    using that
  proof (induction n arbitrary: a)
    case 0
    then show ?case by simp
  next
    case (Suc n)
    then have "n < 8" "n \<le> 8" by simp_all
    show ?case
      using Suc.IH[OF \<open>n \<le> 8\<close>, of a] inner[OF \<open>n < 8\<close>]
      by (simp add: add.assoc)
  qed
  show ?thesis unfolding dctSum_dc using outer[of 8 0] by simp
qed

subsection \<open>Failure modes, quality and output size\<close>

lemma encodeJPEG_shape:
  "\<exists>body. encodeJPEG processedData options = [0xFF, 0xD8] @ body @ [0xFF, 0xD9]"
  by (simp add: encodeJPEG_def Let_def toUint8_def)



lemma JPEG_compress_Inl:
  "canvas imageData = Inl e \<Longrightarrow>
   JPEG_compress canvas imageData options =
     Inl (CompressionError (''JPEG compression failed: '' @ err_message e) ''jpeg'')"
  by (simp add: JPEG_compress_def)

lemma JPEG_compress_Inr:
  assumes "canvas imageData = Inr rgbData"
  shows "\<exists>r. JPEG_compress canvas imageData options = Inr r
     \<and> res_size r = length (res_data r)
     \<and> length (res_data r) = 55 + 3 * ((length rgbData + 3) div 4)
     \<and> (\<exists>body. res_data r = [0xFF, 0xD8] @ body @ [0xFF, 0xD9])"
proof -
  define jpegData where "jpegData =
     encodeJPEG
       (performDCTQuantization
          (if opt_chromaSubsampling options \<noteq> Some False
           then applyChromaSubsampling (convertRGBToYCbCr rgbData)
                  (img_width imageData) (img_height imageData)
           else convertRGBToYCbCr rgbData)
          (img_width imageData) (img_height imageData) (qualityOrDefault options))
       \<lparr>enc_width = img_width imageData, enc_height = img_height imageData,
        enc_quality = qualityOrDefault options,
        enc_progressive = (case opt_progressive options of None \<Rightarrow> False | Some p \<Rightarrow> p)\<rparr>"
  have r: "JPEG_compress canvas imageData options =
     Inr \<lparr>res_data = jpegData, res_size = length jpegData,
           res_width = img_width imageData, res_height = img_height imageData,
           res_format = ''jpeg'', res_quality = qualityOrDefault options\<rparr>"
    using assms by (simp add: JPEG_compress_def Let_def jpegData_def)
  have len: "length jpegData = 55 + 3 * ((length rgbData + 3) div 4)"
    by (simp add: jpegData_def length_encodeJPEG)
  have shape: "\<exists>body. jpegData = [0xFF, 0xD8] @ body @ [0xFF, 0xD9]"
    unfolding jpegData_def by (rule encodeJPEG_shape)
  from r len shape show ?thesis by simp
qed

text \<open>A host canvas that returns the pixels it was given, a 1x1 red image, an image
  of width 0, and options with the quality 2.\<close>

definition samePixels :: canvas_host where
  "samePixels imageData = Inr (img_data imageData)"

definition redPixel :: imageData where
  "redPixel = \<lparr>img_data = [255, 0, 0, 255], img_width = 1, img_height = 1\<rparr>"

definition noPixels :: imageData where
  "noPixels = \<lparr>img_data = [], img_width = 0, img_height = 1\<rparr>"

definition quality2 :: jpeg_options where
  "quality2 = \<lparr>opt_quality = Some 2, opt_progressive = None, opt_chromaSubsampling = None\<rparr>"

text \<open>
  C1, as stated, is false: with the quality 2, outside \<open>[0, 1]\<close>, the codec encodes a
  1x1 image (which passes the engine's validation) into a complete stream of 58 bytes;
  the quality 2 selects the scale 0.5.
\<close>

theorem C1_quality_out_of_range_accepted:
  "\<not> isl (JPEG_compress samePixels redPixel quality2)
   \<and> map_sum err_code res_size (JPEG_compress samePixels redPixel quality2) = Inr 58
   \<and> validateInput redPixel = Inr ()
   \<and> qualityOrDefault quality2 = 2 \<and> calculateQualityScale 2 = 0.5"
proof -
  have c: "samePixels redPixel = Inr [255, 0, 0, 255]"
    by (simp add: samePixels_def redPixel_def)
  from JPEG_compress_Inr[of samePixels redPixel _ quality2, OF c]
  obtain r where r: "JPEG_compress samePixels redPixel quality2 = Inr r"
    "res_size r = length (res_data r)"
    "length (res_data r) = 55 + 3 * ((length [255, 0, 0, 255 :: byte] + 3) div 4)"
    by blast
  have v: "validateInput redPixel = Inr ()"
    by (simp add: validateInput_def redPixel_def)
  show ?thesis
    using r v
    by (simp add: qualityOrDefault_def quality2_def calculateQualityScale_def)
qed

text \<open>
  C1, amended: the engine raises a \<open>CompressionError\<close> whenever a dimension is below 1,
  before any codec runs. The codec itself checks neither the quality nor the dimensions:
  for every quality it fails exactly when the host canvas raises, with a
  \<open>CompressionError\<close> that wraps the host's message, and otherwise returns a complete
  stream (start and end markers, the size recorded in the result) whose length depends
  only on the number of bytes the canvas delivered. There is no partial output: the
  result is the error or the whole stream.
\<close>

theorem C1_compress_failure_modes:
  "(img_width imageData < 1 \<or> img_height imageData < 1 \<longrightarrow>
      (\<exists>msg. CompressionEngine_compress encode imageData options
              = Inl (CompressionError msg ''auto'')))
   \<and> isl (JPEG_compress canvas imageData jpegOptions) = isl (canvas imageData)
   \<and> (\<forall>e. canvas imageData = Inl e \<longrightarrow>
         JPEG_compress canvas imageData jpegOptions =
           Inl (CompressionError (''JPEG compression failed: '' @ err_message e) ''jpeg''))
   \<and> (\<forall>rgbData. canvas imageData = Inr rgbData \<longrightarrow>
         (\<exists>r. JPEG_compress canvas imageData jpegOptions = Inr r
            \<and> res_size r = length (res_data r)
            \<and> length (res_data r) = 55 + 3 * ((length rgbData + 3) div 4)
            \<and> (\<exists>body. res_data r = [0xFF, 0xD8] @ body @ [0xFF, 0xD9])))"
proof -
  have a: "img_width imageData < 1 \<or> img_height imageData < 1 \<longrightarrow>
      (\<exists>msg. CompressionEngine_compress encode imageData options
              = Inl (CompressionError msg ''auto''))"
    by (auto simp: CompressionEngine_compress_def validateInput_def)
  have b: "isl (JPEG_compress canvas imageData jpegOptions) = isl (canvas imageData)"
    by (cases "canvas imageData") (simp_all add: JPEG_compress_def Let_def)
  from a b JPEG_compress_Inl[of canvas imageData _ jpegOptions]
    JPEG_compress_Inr[of canvas imageData _ jpegOptions]
  show ?thesis by blast
qed

theorem C1_compress_failure_modes_witness:
  "img_width noPixels < 1
   \<and> CompressionEngine_compress (JPEG_compress samePixels) noPixels quality2
       = Inl (CompressionError ''ValidationError is not defined'' ''auto'')
   \<and> isl (JPEG_compress samePixels redPixel quality2) = isl (samePixels redPixel)"
proof -
  note t = C1_compress_failure_modes[of noPixels "JPEG_compress samePixels" quality2
      samePixels quality2]
  have w: "img_width noPixels < 1" by (simp add: noPixels_def)
  with t obtain msg where
    "CompressionEngine_compress (JPEG_compress samePixels) noPixels quality2
       = Inl (CompressionError msg ''auto'')" by blast
  moreover have "CompressionEngine_compress (JPEG_compress samePixels) noPixels quality2
       = Inl (CompressionError ''ValidationError is not defined'' ''auto'')"
    by (simp add: CompressionEngine_compress_def validateInput_def noPixels_def
        ReferenceError_def)
  moreover have "isl (JPEG_compress samePixels redPixel quality2) = isl (samePixels redPixel)"
    using C1_compress_failure_modes[of redPixel "JPEG_compress samePixels" quality2
      samePixels quality2] by blast
  ultimately show ?thesis using w by simp
qed




text \<open>
  C9: the scaling factors for \<open>u = 0\<close> and for \<open>v = 0\<close> are both \<open>1 / sqrt 2\<close>; the
  coefficient at index 0 of the transformed block is the pixel sum times both factors
  (and the common \<open>1 / 16\<close>), so the DC term carries the combined factor \<open>1 / 2\<close> where
  a coefficient with \<open>u, v > 0\<close> carries 1.
\<close>

theorem C9_dc_normalization:
  "cu 0 = 1 / sqrt 2 \<and> cv 0 = 1 / sqrt 2
   \<and> applyDCT block ! 0 =
       fmul (fmul (fmul (dctSum block 0 0) (Some (1 / sqrt 2))) (Some (1 / sqrt 2)))
            (Some (1 / 16))
   \<and> applyDCT (map (\<lambda>i. Some (px i)) [0..<64]) ! 0 =
       Some ((\<Sum>x<8. \<Sum>y<8. px (y * 8 + x)) * (1 / sqrt 2) * (1 / sqrt 2) * (1 / 16))
   \<and> cu 0 * cv 0 = 1 / 2
   \<and> cu (Suc u) * cv (Suc v) = 1"
proof -
  have a: "cu 0 = 1 / sqrt 2" "cv 0 = 1 / sqrt 2"
    by (simp_all add: cu_def cv_def)
  have b: "applyDCT block ! 0 =
       fmul (fmul (fmul (dctSum block 0 0) (Some (1 / sqrt 2))) (Some (1 / sqrt 2)))
            (Some (1 / 16))" for block
    using applyDCT_dc[of block] by (simp only: a)
  have c: "applyDCT (map (\<lambda>i. Some (px i)) [0..<64]) ! 0 =
       Some ((\<Sum>x<8. \<Sum>y<8. px (y * 8 + x)) * (1 / sqrt 2) * (1 / sqrt 2) * (1 / 16))"
    by (simp only: b dctSum_defined fmul_Some)
  have d: "cu 0 * cv 0 = 1 / 2" by (simp add: a)
  have e: "cu (Suc u) * cv (Suc v) = 1" by (simp add: cu_def cv_def)
  from a b c d e show ?thesis by blast
qed

section \<open>The filter-entropy codec (algorithms/PNGCompression.js)\<close>

subsection \<open>Scanline filters\<close>












subsection \<open>The selected filter\<close>







subsection \<open>Median cut\<close>

text \<open>
  \<open>medianCut\<close> on a list of RGB triples. The minimum of a channel is folded from 255
  and the maximum from 0, as in the source; \<open>Array.prototype.sort\<close> is stable, as is
  \<open>sort_key\<close>; \<open>Math.floor(maxColors / 2)\<close> and \<open>Math.ceil(maxColors / 2)\<close> are
  \<open>maxColors div 2\<close> and \<open>- ((- maxColors) div 2)\<close>. The recursion has no measure
  that decreases: the function is partial, and \<open>None\<close> means that the call does not
  return a palette (the recursion goes on until the call stack is exhausted).
\<close>

type_synonym pixel = "int \<times> int \<times> int"

definition channelValue :: "nat \<Rightarrow> pixel \<Rightarrow> int" where
  "channelValue channel p =
     (case p of (r, g, b) \<Rightarrow> if channel = 0 then r else if channel = 1 then g else b)"

definition channelRange :: "pixel list \<Rightarrow> nat \<Rightarrow> int" where
  "channelRange pixels channel =
     fold (\<lambda>p m. max m (channelValue channel p)) pixels 0
     - fold (\<lambda>p m. min m (channelValue channel p)) pixels 255"

definition widestChannel :: "pixel list \<Rightarrow> nat" where
  "widestChannel pixels =
     (let rangeR = channelRange pixels 0;
          rangeG = channelRange pixels 1;
          rangeB = channelRange pixels 2
      in if rangeR \<ge> rangeG \<and> rangeR \<ge> rangeB then 0
         else if rangeG \<ge> rangeB then 1 else 2)"

definition sortByChannel :: "pixel list \<Rightarrow> pixel list" where
  "sortByChannel pixels = sort_key (channelValue (widestChannel pixels)) pixels"

partial_function (option) medianCut :: "pixel list \<Rightarrow> int \<Rightarrow> pixel list option" where
  "medianCut pixels maxColors =
     (if int (length pixels) \<le> maxColors then Some pixels
      else
        (let sorted = sortByChannel pixels;
             median = length pixels div 2;
             left = take median sorted;
             right = drop median sorted
         in Option.bind (medianCut left (maxColors div 2)) (\<lambda>leftColors.
            Option.bind (medianCut right (- ((- maxColors) div 2))) (\<lambda>rightColors.
            Some (leftColors @ rightColors)))))"

text \<open>The mean colour of a bucket, as the specification words it.\<close>

definition bucketMean :: "pixel list \<Rightarrow> rat \<times> rat \<times> rat" where
  "bucketMean pixels =
     (let n = of_nat (length pixels)
      in (of_int (sum_list (map (channelValue 0) pixels)) / n,
          of_int (sum_list (map (channelValue 1) pixels)) / n,
          of_int (sum_list (map (channelValue 2) pixels)) / n))"

subsection \<open>What median cut returns\<close>

lemma medianCut_small: "int (length pixels) \<le> maxColors \<Longrightarrow> medianCut pixels maxColors = Some pixels"
  by (subst medianCut.simps) simp

lemma medianCut_returns:
  assumes "medianCut pixels maxColors = Some palette"
  shows "int (length pixels) \<le> maxColors \<and> palette = pixels"
proof (rule medianCut.raw_induct[where
      P = "\<lambda>pixels maxColors palette. int (length pixels) \<le> maxColors \<and> palette = pixels",
      OF _ assms])
  fix f :: "pixel list \<Rightarrow> int \<Rightarrow> pixel list option" and ps m pal
  assume IH: "\<And>ps m pal. f ps m = Some pal \<Longrightarrow> int (length ps) \<le> m \<and> pal = ps"
  assume body: "(if int (length ps) \<le> m then Some ps
      else
        (let sorted = sortByChannel ps;
             median = length ps div 2;
             left = take median sorted;
             right = drop median sorted
         in Option.bind (f left (m div 2)) (\<lambda>leftColors.
            Option.bind (f right (- ((- m) div 2))) (\<lambda>rightColors.
            Some (leftColors @ rightColors))))) = Some pal"
  show "int (length ps) \<le> m \<and> pal = ps"
  proof (cases "int (length ps) \<le> m")
    case True
    with body show ?thesis by simp
  next
    case False
    let ?sorted = "sortByChannel ps"
    let ?median = "length ps div 2"
    from body False obtain l r where
      l: "f (take ?median ?sorted) (m div 2) = Some l" and
      r: "f (drop ?median ?sorted) (- ((- m) div 2)) = Some r"
      by (auto simp: Let_def bind_eq_Some_conv)
    have len: "length ?sorted = length ps" by (simp add: sortByChannel_def)
    have "int (length (take ?median ?sorted)) \<le> m div 2" using IH[OF l] by simp
    moreover have "int (length (drop ?median ?sorted)) \<le> - ((- m) div 2)"
      using IH[OF r] by simp
    ultimately have "int (length ps) \<le> m"
      using len by (simp add: min_def split: if_splits)
    with False show ?thesis by simp
  qed
qed

text \<open>
  A set with more pixels than colours is split, and on one side of every split the
  pixels again outnumber the colours (down to one pixel for zero colours, which is split
  into nothing and itself): such a call never returns.
\<close>

lemma medianCut_diverges:
  "maxColors < int (length pixels) \<Longrightarrow> medianCut pixels maxColors = None"
  using medianCut_returns[of pixels maxColors] by (cases "medianCut pixels maxColors") auto

lemma medianCut_characterised:
  "medianCut pixels maxColors = (if int (length pixels) \<le> maxColors then Some pixels else None)"
  by (simp add: medianCut_small medianCut_diverges)

text \<open>Black and white, to be reduced to one colour; and 257 equal pixels, to be reduced
  to 256 colours, the default target of \<open>quantize\<close>.\<close>

definition blackAndWhite :: "pixel list" where
  "blackAndWhite = [(0, 0, 0), (255, 255, 255)]"

definition manyPixels :: "pixel list" where
  "manyPixels = replicate 257 (0, 0, 0)"

text \<open>
  C5 (a defect of the code): the claim asks for a split until the target size is reached
  and for the mean of every final bucket. For black and white and one colour that is the
  single colour \<open>(255/2, 255/2, 255/2)\<close>. The code returns nothing: the call does not
  come back, and neither does the call for 257 pixels and the default 256 colours. The
  only inputs on which \<open>medianCut\<close> returns are those it does not split.
\<close>

theorem C5_median_cut_never_returns:
  "medianCut blackAndWhite 1 = None
   \<and> bucketMean blackAndWhite = (255 / 2, 255 / 2, 255 / 2)
   \<and> medianCut manyPixels 256 = None
   \<and> medianCut [(0, 0, 0)] 0 = None
   \<and> medianCut pixels maxColors =
       (if int (length pixels) \<le> maxColors then Some pixels else None)"
proof -
  note e = medianCut_characterised[of pixels maxColors]
  have a: "medianCut blackAndWhite 1 = None"
    by (rule medianCut_diverges) (simp add: blackAndWhite_def)
  have b: "bucketMean blackAndWhite = (255 / 2, 255 / 2, 255 / 2)"
    by (simp add: bucketMean_def blackAndWhite_def channelValue_def)
  have c: "medianCut manyPixels 256 = None"
    by (rule medianCut_diverges) (simp add: manyPixels_def)
  have d: "medianCut [(0, 0, 0)] 0 = None"
    by (rule medianCut_diverges) simp
  from a b c d e show ?thesis by blast
qed

section \<open>The result cache (class LRUCache of core/CompressionEngine.js)\<close>

text \<open>
  A cached value is an object that may carry a byte array \<open>data\<close> and a number
  \<open>size\<close>. \<open>entrySize\<close> is the expression \<open>value.data?.length || value.size || 0\<close>
  that \<open>set\<close> evaluates for the new, the replaced and each evicted value.
\<close>

record cache_value =
  val_data :: "nat list option"
  val_size :: "int option"

definition entrySize :: "cache_value \<Rightarrow> int" where
  "entrySize v =
     (let sizeOr0 = (case val_size v of None \<Rightarrow> 0 | Some s \<Rightarrow> s)
      in case val_data v of
           None \<Rightarrow> sizeOr0
         | Some d \<Rightarrow> if length d \<noteq> 0 then int (length d) else sizeOr0)"

text \<open>
  A JavaScript \<open>Map\<close> keeps its entries in insertion order: it is a list of
  key-value pairs with \<open>has\<close>, \<open>get\<close>, \<open>delete\<close> and \<open>set\<close>
  (which overwrites in place, or appends a new key at the end).
\<close>

fun map_has :: "('k \<times> 'v) list \<Rightarrow> 'k \<Rightarrow> bool" where
  "map_has [] k = False"
| "map_has ((k', v) # m) k = (k' = k \<or> map_has m k)"

fun map_get :: "('k \<times> 'v) list \<Rightarrow> 'k \<Rightarrow> 'v option" where
  "map_get [] k = None"
| "map_get ((k', v) # m) k = (if k' = k then Some v else map_get m k)"

fun map_delete :: "'k \<Rightarrow> ('k \<times> 'v) list \<Rightarrow> ('k \<times> 'v) list" where
  "map_delete k [] = []"
| "map_delete k ((k', v) # m) = (if k' = k then map_delete k m else (k', v) # map_delete k m)"

fun map_set :: "'k \<Rightarrow> 'v \<Rightarrow> ('k \<times> 'v) list \<Rightarrow> ('k \<times> 'v) list" where
  "map_set k v [] = [(k, v)]"
| "map_set k v ((k', v') # m) = (if k' = k then (k, v) # m else (k', v') # map_set k v m)"

text \<open>The fields of an \<open>LRUCache\<close> object and its constructor
  (\<open>options.maxSize || 50 * 1024 * 1024\<close>).\<close>

record 'k LRUCache =
  maxSize :: int
  cache :: "('k \<times> cache_value) list"
  totalSize :: int
  accessCount :: nat
  hitCount :: nat

definition LRUCache_new :: "int option \<Rightarrow> 'k LRUCache" where
  "LRUCache_new optMaxSize =
     \<lparr>maxSize = (case optMaxSize of None \<Rightarrow> 50 * 1024 * 1024
                  | Some m \<Rightarrow> if m \<noteq> 0 then m else 50 * 1024 * 1024),
      cache = [], totalSize = 0, accessCount = 0, hitCount = 0\<rparr>"

text \<open>\<open>get(key)\<close>: counts the access; on a hit it deletes the entry and sets it
  again, which moves it to the end of the map, and returns the value; on a miss it returns
  null (\<open>None\<close>).\<close>

definition cache_get :: "'k \<Rightarrow> 'k LRUCache \<Rightarrow> cache_value option \<times> 'k LRUCache" where
  "cache_get key c =
     (let c1 = c\<lparr>accessCount := accessCount c + 1\<rparr>
      in case map_get (cache c1) key of
           Some v \<Rightarrow>
             (Some v, c1\<lparr>hitCount := hitCount c1 + 1,
                         cache := map_set key v (map_delete key (cache c1))\<rparr>)
         | None \<Rightarrow> (None, c1))"

lemma length_map_delete: "length (map_delete k m) \<le> length m"
  by (induction m) auto

text \<open>The \<open>while\<close> loop of \<open>set\<close>: as long as the new size does not fit and the
  map is not empty, the first key of the map is removed and its size subtracted.\<close>

function evictLoop :: "int \<Rightarrow> 'k LRUCache \<Rightarrow> 'k LRUCache" where
  "evictLoop sz c =
     (case cache c of
        [] \<Rightarrow> c
      | (firstKey, firstValue) # rest \<Rightarrow>
          if totalSize c + sz > maxSize c
          then evictLoop sz
                 (c\<lparr>totalSize := totalSize c - entrySize firstValue,
                    cache := map_delete firstKey (cache c)\<rparr>)
          else c)"
  by pat_completeness auto
termination
  by (relation "measure (\<lambda>(sz, c). length (cache c))")
     (auto simp: length_map_delete less_Suc_eq_le)

declare evictLoop.simps [simp del]

text \<open>\<open>set(key, value)\<close>: removes an entry already stored under the key, runs the
  eviction loop, and stores the value only if its size is within the whole budget.\<close>

definition cache_set :: "'k \<Rightarrow> cache_value \<Rightarrow> 'k LRUCache \<Rightarrow> 'k LRUCache" where
  "cache_set key v c =
     (let sz = entrySize v;
          c1 = (case map_get (cache c) key of
                  Some oldValue \<Rightarrow>
                    c\<lparr>totalSize := totalSize c - entrySize oldValue,
                      cache := map_delete key (cache c)\<rparr>
                | None \<Rightarrow> c);
          c2 = evictLoop sz c1
      in if sz \<le> maxSize c2
         then c2\<lparr>cache := map_set key v (cache c2), totalSize := totalSize c2 + sz\<rparr>
         else c2)"

definition cache_clear :: "'k LRUCache \<Rightarrow> 'k LRUCache" where
  "cache_clear c = c\<lparr>cache := [], totalSize := 0\<rparr>"

text \<open>An operation on the cache, and the state after it; the stored bytes; the
  invariant the operations keep.\<close>

datatype 'k cache_op = Get 'k | Set 'k cache_value | Clear

fun cache_step :: "'k LRUCache \<Rightarrow> 'k cache_op \<Rightarrow> 'k LRUCache" where
  "cache_step c (Get k) = snd (cache_get k c)"
| "cache_step c (Set k v) = cache_set k v c"
| "cache_step c Clear = cache_clear c"

definition bytes :: "('k \<times> cache_value) list \<Rightarrow> int" where
  "bytes m = sum_list (map (\<lambda>(k, v). entrySize v) m)"

definition storedBytes :: "'k LRUCache \<Rightarrow> int" where
  "storedBytes c = bytes (cache c)"

definition cache_inv :: "'k LRUCache \<Rightarrow> bool" where
  "cache_inv c =
     (0 \<le> maxSize c \<and> distinct (map fst (cache c)) \<and> totalSize c = storedBytes c
      \<and> storedBytes c \<le> maxSize c)"

lemma map_get_None_iff: "map_get m k = None \<longleftrightarrow> k \<notin> fst ` set m"
  by (induction m) (auto simp: image_iff split: if_splits)

lemma map_get_Some_mem: "map_get m k = Some v \<Longrightarrow> (k, v) \<in> set m"
  by (induction m) (auto split: if_splits)

lemma map_delete_absent: "k \<notin> fst ` set m \<Longrightarrow> map_delete k m = m"
  by (induction m) auto

lemma keys_map_delete: "fst ` set (map_delete k m) = fst ` set m - {k}"
proof (induction m)
  case Nil
  then show ?case by simp
next
  case (Cons p m)
  obtain k' v' where p: "p = (k', v')" by (cases p)
  show ?case
  proof (cases "k' = k")
    case True
    with Cons p show ?thesis by auto
  next
    case False
    with Cons p show ?thesis by auto
  qed
qed

lemma distinct_map_delete: "distinct (map fst m) \<Longrightarrow> distinct (map fst (map_delete k m))"
  by (induction m) (auto simp: keys_map_delete)

lemma map_set_absent: "k \<notin> fst ` set m \<Longrightarrow> map_set k v m = m @ [(k, v)]"
  by (induction m) auto

lemma bytes_simps [simp]:
  "bytes [] = 0" "bytes ((k, v) # m) = entrySize v + bytes m"
  "bytes (m @ m') = bytes m + bytes m'"
  by (simp_all add: bytes_def)

lemma bytes_map_delete:
  "distinct (map fst m) \<Longrightarrow> map_get m k = Some v \<Longrightarrow>
   bytes (map_delete k m) = bytes m - entrySize v"
proof (induction m)
  case Nil
  then show ?case by simp
next
  case (Cons p m)
  obtain k' v' where p: "p = (k', v')" by (cases p)
  show ?case
  proof (cases "k' = k")
    case True
    with Cons.prems p have "k \<notin> fst ` set m" "v' = v" by auto
    with True p show ?thesis by (simp add: map_delete_absent)
  next
    case False
    with Cons p show ?thesis by simp
  qed
qed

lemma evictLoop_empty: "cache c = [] \<Longrightarrow> evictLoop sz c = c"
  by (subst evictLoop.simps) simp

lemma evictLoop_fits: "\<not> maxSize c < totalSize c + sz \<Longrightarrow> evictLoop sz c = c"
  by (subst evictLoop.simps) (simp split: list.splits)

lemma evictLoop_evict:
  "cache c = (fk, fv) # rest \<Longrightarrow> maxSize c < totalSize c + sz \<Longrightarrow>
   evictLoop sz c =
     evictLoop sz (c\<lparr>totalSize := totalSize c - entrySize fv,
                       cache := map_delete fk (cache c)\<rparr>)"
  by (subst evictLoop.simps) simp

lemma evictLoop_spec:
  "distinct (map fst (cache c)) \<Longrightarrow> totalSize c = bytes (cache c) \<Longrightarrow>
   \<exists>n\<le>length (cache c).
     evictLoop sz c = c\<lparr>cache := drop n (cache c), totalSize := bytes (drop n (cache c))\<rparr>
     \<and> (\<forall>m<n. maxSize c < bytes (drop m (cache c)) + sz)
     \<and> (n < length (cache c) \<longrightarrow> bytes (drop n (cache c)) + sz \<le> maxSize c)"
proof (induction sz c rule: evictLoop.induct)
  case (1 sz c)
  show ?case
  proof (cases "cache c")
    case Nil
    then show ?thesis using "1.prems" by (intro exI[of _ 0]) (simp add: evictLoop_empty)
  next
    case (Cons p rest)
    obtain fk fv where p: "p = (fk, fv)" by (cases p)
    show ?thesis
    proof (cases "totalSize c + sz > maxSize c")
      case False
      then show ?thesis using "1.prems" Cons by (intro exI[of _ 0]) (simp add: evictLoop_fits)
    next
      case True
      let ?c' = "c\<lparr>totalSize := totalSize c - entrySize fv, cache := map_delete fk (cache c)\<rparr>"
      from "1.prems" Cons p have absent: "fk \<notin> fst ` set rest" and d: "distinct (map fst rest)"
        by auto
      have del: "map_delete fk (cache c) = rest"
        using Cons p absent by (simp add: map_delete_absent)
      have tot: "totalSize ?c' = bytes (cache ?c')"
        using "1.prems" Cons p del by simp
      have "\<exists>n\<le>length (cache ?c').
         evictLoop sz ?c' = ?c'\<lparr>cache := drop n (cache ?c'), totalSize := bytes (drop n (cache ?c'))\<rparr>
         \<and> (\<forall>m<n. maxSize ?c' < bytes (drop m (cache ?c')) + sz)
         \<and> (n < length (cache ?c') \<longrightarrow> bytes (drop n (cache ?c')) + sz \<le> maxSize ?c')"
        using "1.IH"[OF Cons p[symmetric] True] d tot del by simp
      then obtain n where n: "n \<le> length rest"
        "evictLoop sz ?c' = ?c'\<lparr>cache := drop n rest, totalSize := bytes (drop n rest)\<rparr>"
        "\<forall>m<n. maxSize c < bytes (drop m rest) + sz"
        "n < length rest \<longrightarrow> bytes (drop n rest) + sz \<le> maxSize c"
        using del by auto
      have step: "evictLoop sz c = evictLoop sz ?c'"
        using Cons p True by (simp add: evictLoop_evict)
      have low: "\<forall>m<Suc n. maxSize c < bytes (drop m (cache c)) + sz"
      proof (intro allI impI)
        fix m assume "m < Suc n"
        show "maxSize c < bytes (drop m (cache c)) + sz"
        proof (cases m)
          case 0
          then show ?thesis using True "1.prems" by simp
        next
          case (Suc m')
          with \<open>m < Suc n\<close> n(3) Cons show ?thesis by simp
        qed
      qed
      show ?thesis
        using n step low Cons by (intro exI[of _ "Suc n"]) simp
    qed
  qed
qed

lemma map_has_iff: "map_has m k \<longleftrightarrow> k \<in> fst ` set m"
  by (induction m) (auto simp: image_iff)

lemma key_absent_drop_delete: "k \<notin> fst ` set (drop n (map_delete k m))"
proof
  assume "k \<in> fst ` set (drop n (map_delete k m))"
  then obtain v where "(k, v) \<in> set (drop n (map_delete k m))" by auto
  then have "(k, v) \<in> set (map_delete k m)" by (rule in_set_dropD)
  then have "k \<in> fst ` set (map_delete k m)" by force
  then show False by (simp add: keys_map_delete)
qed

lemma cache_set_spec:
  assumes inv: "cache_inv c"
  shows "\<exists>n\<le>length (map_delete k (cache c)).
     cache (cache_set k v c) =
       drop n (map_delete k (cache c)) @ (if entrySize v \<le> maxSize c then [(k, v)] else [])
     \<and> totalSize (cache_set k v c) = bytes (cache (cache_set k v c))
     \<and> maxSize (cache_set k v c) = maxSize c
     \<and> (\<forall>m<n. maxSize c < bytes (drop m (map_delete k (cache c))) + entrySize v)
     \<and> (n < length (map_delete k (cache c)) \<longrightarrow>
          bytes (drop n (map_delete k (cache c))) + entrySize v \<le> maxSize c)"
proof -
  define c1 where "c1 = (case map_get (cache c) k of
                  Some oldValue \<Rightarrow>
                    c\<lparr>totalSize := totalSize c - entrySize oldValue,
                      cache := map_delete k (cache c)\<rparr>
                | None \<Rightarrow> c)"
  from inv have d: "distinct (map fst (cache c))" and t: "totalSize c = bytes (cache c)"
    by (simp_all add: cache_inv_def storedBytes_def)
  have c1_cache: "cache c1 = map_delete k (cache c)"
  proof (cases "map_get (cache c) k")
    case None
    then have "k \<notin> fst ` set (cache c)" by (simp add: map_get_None_iff)
    then show ?thesis using None by (simp add: c1_def map_delete_absent)
  next
    case (Some a)
    then show ?thesis by (simp add: c1_def)
  qed
  have c1_total: "totalSize c1 = bytes (cache c1)"
    by (cases "map_get (cache c) k")
       (simp_all add: c1_def t bytes_map_delete[OF d])
  have c1_max: "maxSize c1 = maxSize c"
    by (cases "map_get (cache c) k") (simp_all add: c1_def)
  have c1_d: "distinct (map fst (cache c1))"
    using d by (simp add: c1_cache distinct_map_delete)
  from evictLoop_spec[OF c1_d c1_total, of "entrySize v"]
  obtain n where n: "n \<le> length (cache c1)"
    "evictLoop (entrySize v) c1 =
       c1\<lparr>cache := drop n (cache c1), totalSize := bytes (drop n (cache c1))\<rparr>"
    "\<forall>m<n. maxSize c1 < bytes (drop m (cache c1)) + entrySize v"
    "n < length (cache c1) \<longrightarrow> bytes (drop n (cache c1)) + entrySize v \<le> maxSize c1"
    by blast
  have absent: "k \<notin> fst ` set (drop n (cache c1))"
    by (simp only: c1_cache key_absent_drop_delete not_False_eq_True)
  have set_eq: "cache_set k v c =
     (let c2 = evictLoop (entrySize v) c1
      in if entrySize v \<le> maxSize c2
         then c2\<lparr>cache := map_set k v (cache c2), totalSize := totalSize c2 + entrySize v\<rparr>
         else c2)"
    by (simp add: cache_set_def c1_def Let_def)
  show ?thesis
    using n absent
    by (intro exI[of _ n]) (simp add: set_eq Let_def c1_max c1_cache map_set_absent)
qed

lemma cache_inv_set:
  assumes inv: "cache_inv c"
  shows "cache_inv (cache_set k v c)"
proof -
  from cache_set_spec[OF inv, of k v]
  obtain n where n: "n \<le> length (map_delete k (cache c))"
    "cache (cache_set k v c) =
       drop n (map_delete k (cache c)) @ (if entrySize v \<le> maxSize c then [(k, v)] else [])"
    "totalSize (cache_set k v c) = bytes (cache (cache_set k v c))"
    "maxSize (cache_set k v c) = maxSize c"
    "n < length (map_delete k (cache c)) \<longrightarrow>
          bytes (drop n (map_delete k (cache c))) + entrySize v \<le> maxSize c"
    by blast
  from inv have d: "distinct (map fst (cache c))" and m0: "0 \<le> maxSize c"
    by (simp_all add: cache_inv_def)
  have dd: "distinct (map fst (drop n (map_delete k (cache c))))"
    using distinct_map_delete[OF d, of k] by (simp add: drop_map[symmetric] distinct_drop)
  have absent: "k \<notin> fst ` set (drop n (map_delete k (cache c)))"
    by (rule key_absent_drop_delete)
  have dist: "distinct (map fst (cache (cache_set k v c)))"
    using dd absent by (simp add: n(2))
  have budget: "bytes (cache (cache_set k v c)) \<le> maxSize c"
  proof (cases "n < length (map_delete k (cache c))")
    case True
    with n(5) have fit: "bytes (drop n (map_delete k (cache c))) + entrySize v \<le> maxSize c"
      by simp
    show ?thesis
    proof (cases "entrySize v \<le> maxSize c")
      case True
      with fit show ?thesis by (simp add: n(2))
    next
      case False
      with fit m0 show ?thesis by (simp add: n(2))
    qed
  next
    case False
    with n(1) have "drop n (map_delete k (cache c)) = []" by simp
    with m0 show ?thesis by (simp add: n(2))
  qed
  show ?thesis
    using dist budget m0 n(3,4) by (simp add: cache_inv_def storedBytes_def)
qed

lemma cache_get_hit:
  assumes "map_get (cache c) k = Some v"
  shows "fst (cache_get k c) = Some v"
    and "cache (snd (cache_get k c)) = map_delete k (cache c) @ [(k, v)]"
    and "totalSize (snd (cache_get k c)) = totalSize c"
    and "maxSize (snd (cache_get k c)) = maxSize c"
  using assms
  by (simp_all add: cache_get_def Let_def map_set_absent keys_map_delete)

lemma cache_get_miss:
  assumes "map_get (cache c) k = None"
  shows "fst (cache_get k c) = None"
    and "cache (snd (cache_get k c)) = cache c"
    and "totalSize (snd (cache_get k c)) = totalSize c"
    and "maxSize (snd (cache_get k c)) = maxSize c"
  using assms by (simp_all add: cache_get_def Let_def)

lemma cache_inv_get:
  assumes inv: "cache_inv c"
  shows "cache_inv (snd (cache_get k c))"
proof (cases "map_get (cache c) k")
  case None
  with inv show ?thesis by (simp add: cache_inv_def storedBytes_def cache_get_miss)
next
  case (Some v)
  from inv have d: "distinct (map fst (cache c))" by (simp add: cache_inv_def)
  have "bytes (map_delete k (cache c) @ [(k, v)]) = bytes (cache c)"
    using bytes_map_delete[OF d Some] by simp
  moreover have "distinct (map fst (map_delete k (cache c) @ [(k, v)]))"
    using distinct_map_delete[OF d, of k] by (simp add: keys_map_delete)
  ultimately show ?thesis
    using inv by (simp add: cache_inv_def storedBytes_def cache_get_hit[OF Some])
qed

lemma cache_inv_clear: "cache_inv c \<Longrightarrow> cache_inv (cache_clear c)"
  by (simp add: cache_inv_def storedBytes_def cache_clear_def)

lemma cache_inv_step: "cache_inv c \<Longrightarrow> cache_inv (cache_step c x)"
  by (cases x) (simp_all add: cache_inv_get cache_inv_set cache_inv_clear)

lemma cache_inv_new:
  "0 \<le> maxSize (LRUCache_new opt :: 'k LRUCache) \<Longrightarrow> cache_inv (LRUCache_new opt :: 'k LRUCache)"
  by (simp add: cache_inv_def storedBytes_def LRUCache_new_def)

lemma cache_inv_run: "cache_inv c \<Longrightarrow> cache_inv (foldl cache_step c ops)"
  by (induction ops arbitrary: c) (simp_all add: cache_inv_step)

lemma maxSize_evictLoop: "maxSize (evictLoop sz c) = maxSize c"
proof (induction sz c rule: evictLoop.induct)
  case (1 sz c)
  show ?case
  proof (cases "cache c")
    case Nil
    then show ?thesis by (simp add: evictLoop_empty)
  next
    case (Cons p rest)
    obtain fk fv where p: "p = (fk, fv)" by (cases p)
    show ?thesis
    proof (cases "totalSize c + sz > maxSize c")
      case True
      have "evictLoop sz c = evictLoop sz
                 (c\<lparr>totalSize := totalSize c - entrySize fv,
                    cache := map_delete fk (cache c)\<rparr>)"
        using Cons p True by (simp add: evictLoop_evict)
      then show ?thesis using "1.IH"[OF Cons p[symmetric] True] by simp
    next
      case False
      then show ?thesis by (simp add: evictLoop_fits)
    qed
  qed
qed

lemma maxSize_step: "maxSize (cache_step c x) = maxSize c"
proof (cases x)
  case (Get k)
  then show ?thesis
    by (cases "map_get (cache c) k") (simp_all add: cache_get_hit cache_get_miss)
next
  case (Set k v)
  show ?thesis using Set
    by (simp add: cache_set_def Let_def maxSize_evictLoop split: option.splits)
next
  case Clear
  then show ?thesis by (simp add: cache_clear_def)
qed

lemma maxSize_run: "maxSize (foldl cache_step c ops) = maxSize c"
  by (induction ops arbitrary: c) (simp_all add: maxSize_step)

text \<open>Three sample values: 3 and 2 bytes of data, and a value with only a size.\<close>

definition bytes3 :: cache_value where
  "bytes3 = \<lparr>val_data = Some [1, 2, 3], val_size = None\<rparr>"

definition bytes2 :: cache_value where
  "bytes2 = \<lparr>val_data = Some [1, 2], val_size = None\<rparr>"

definition sized1 :: cache_value where
  "sized1 = \<lparr>val_data = None, val_size = Some 1\<rparr>"

text \<open>
  C7: in every state \<open>c\<close> the cache reaches from its constructor (with a budget that is
  not negative) through any sequence of \<open>get\<close>, \<open>set\<close> and \<open>clear\<close> operations,
  the \<open>totalSize\<close> field is the sum of the stored sizes and that sum is at most
  \<open>maxSize\<close>. A \<open>set\<close> in such a state keeps a suffix of the map (after removing the
  key itself): it evicts the \<open>n\<close> oldest entries, where every shorter eviction would not
  fit and, unless everything was evicted, the rest fits; an entry larger than the budget
  is not stored. A \<open>get\<close> that hits moves the entry to the most-recently-used end.
\<close>

theorem C7_cache_budget:
  assumes budget: "0 \<le> maxSize (LRUCache_new opt :: 'k LRUCache)"
    and reach: "c = foldl cache_step (LRUCache_new opt :: 'k LRUCache) ops"
  shows "totalSize c = storedBytes c \<and> storedBytes c \<le> maxSize c
     \<and> maxSize c = maxSize (LRUCache_new opt :: 'k LRUCache)
     \<and> (\<exists>n\<le>length (map_delete k (cache c)).
           cache (cache_set k v c) =
             drop n (map_delete k (cache c)) @ (if entrySize v \<le> maxSize c then [(k, v)] else [])
           \<and> (\<forall>m<n. maxSize c < bytes (drop m (map_delete k (cache c))) + entrySize v)
           \<and> (n < length (map_delete k (cache c)) \<longrightarrow>
                bytes (drop n (map_delete k (cache c))) + entrySize v \<le> maxSize c))
     \<and> (maxSize c < entrySize v \<longrightarrow> \<not> map_has (cache (cache_set k v c)) k)
     \<and> (\<forall>v'. map_get (cache c) k = Some v' \<longrightarrow>
           fst (cache_get k c) = Some v'
           \<and> cache (snd (cache_get k c)) = map_delete k (cache c) @ [(k, v')])"
proof -
  have inv: "cache_inv c"
    unfolding reach by (rule cache_inv_run) (rule cache_inv_new[OF budget])
  have a: "totalSize c = storedBytes c \<and> storedBytes c \<le> maxSize c"
    using inv by (simp add: cache_inv_def)
  have b: "maxSize c = maxSize (LRUCache_new opt :: 'k LRUCache)"
    unfolding reach by (rule maxSize_run)
  from cache_set_spec[OF inv, of k v]
  obtain n where n: "n \<le> length (map_delete k (cache c))"
    "cache (cache_set k v c) =
       drop n (map_delete k (cache c)) @ (if entrySize v \<le> maxSize c then [(k, v)] else [])"
    "\<forall>m<n. maxSize c < bytes (drop m (map_delete k (cache c))) + entrySize v"
    "n < length (map_delete k (cache c)) \<longrightarrow>
          bytes (drop n (map_delete k (cache c))) + entrySize v \<le> maxSize c"
    by blast
  have d: "maxSize c < entrySize v \<longrightarrow> \<not> map_has (cache (cache_set k v c)) k"
    using key_absent_drop_delete[of k n "cache c"] by (simp add: n(2) map_has_iff)
  have e: "\<forall>v'. map_get (cache c) k = Some v' \<longrightarrow>
           fst (cache_get k c) = Some v'
           \<and> cache (snd (cache_get k c)) = map_delete k (cache c) @ [(k, v')]"
    by (simp add: cache_get_hit)
  from n have cc: "\<exists>n\<le>length (map_delete k (cache c)).
           cache (cache_set k v c) =
             drop n (map_delete k (cache c)) @ (if entrySize v \<le> maxSize c then [(k, v)] else [])
           \<and> (\<forall>m<n. maxSize c < bytes (drop m (map_delete k (cache c))) + entrySize v)
           \<and> (n < length (map_delete k (cache c)) \<longrightarrow>
                bytes (drop n (map_delete k (cache c))) + entrySize v \<le> maxSize c)"
    by blast
  from a b cc d e show ?thesis by blast
qed

theorem C7_cache_budget_witness:
  "storedBytes (foldl cache_step (LRUCache_new (Some 5))
      [Set (1::nat) bytes3, Set 2 bytes2, Get 1, Set 3 sized1]) \<le> 5
   \<and> cache (foldl cache_step (LRUCache_new (Some 5))
      [Set (1::nat) bytes3, Set 2 bytes2, Get 1, Set 3 sized1]) = [(1, bytes3), (3, sized1)]
   \<and> storedBytes (foldl cache_step (LRUCache_new (Some 5))
      [Set (1::nat) bytes3, Set 2 bytes2, Get 1, Set 3 sized1]) = 4"
proof -
  have h: "0 \<le> maxSize (LRUCache_new (Some 5) :: nat LRUCache)"
    by (simp add: LRUCache_new_def)
  have m: "maxSize (LRUCache_new (Some 5) :: nat LRUCache) = 5"
    by (simp add: LRUCache_new_def)
  have run: "foldl cache_step (LRUCache_new (Some 5))
      [Set (1::nat) bytes3, Set 2 bytes2, Get 1, Set 3 sized1]
     = \<lparr>maxSize = 5, cache = [(1, bytes3), (3, sized1)], totalSize = 4,
        accessCount = 1, hitCount = 1\<rparr>"
    by code_simp
  have sb: "storedBytes \<lparr>maxSize = 5, cache = [(1::nat, bytes3), (3, sized1)], totalSize = 4,
        accessCount = 1, hitCount = 1\<rparr> = 4"
    by code_simp
  note t = C7_cache_budget[OF h refl,
      of "[Set (1::nat) bytes3, Set 2 bytes2, Get 1, Set 3 sized1]" 3 sized1]
  have "storedBytes (foldl cache_step (LRUCache_new (Some 5))
      [Set (1::nat) bytes3, Set 2 bytes2, Get 1, Set 3 sized1]) \<le> 5"
    using t[THEN conjunct2, THEN conjunct1] t[THEN conjunct2, THEN conjunct2, THEN conjunct1]
    by (simp only: m)
  then show ?thesis using run sb by simp
qed

end
